theory Spec2Isabelle
  imports Complex_Main
begin

section \<open>K4IniReader: a shallow embedding of the INI reader (v1.1.0)\<close>

text \<open>
  The reader is one C++ class: a constructor that parses a file into
  \<^verbatim>\<open>unordered_map<string, unordered_map<string, string>>\<close> and a
  template method \<^verbatim>\<open>read<T>\<close> that converts a stored text to \<open>T\<close>.
  A \<^verbatim>\<open>std::string\<close> is a \<^typ>\<open>string\<close> (a list of 8-bit characters), a position
  returned by a \<^verbatim>\<open>find\<close> member is a \<^typ>\<open>nat option\<close> (\<open>None\<close> is
  \<^verbatim>\<open>std::string::npos\<close>), and a loop is a recursion over the lines read.
\<close>

subsection \<open>The members of \<^verbatim>\<open>std::string\<close> and \<^verbatim>\<open><cctype>\<close> the reader calls\<close>

text \<open>The first position, counted from \<open>i\<close>, of an element satisfying \<open>P\<close>.\<close>

primrec index_where :: "('a \<Rightarrow> bool) \<Rightarrow> 'a list \<Rightarrow> nat \<Rightarrow> nat option" where
  "index_where P [] i = None"
| "index_where P (x # xs) i = (if P x then Some i else index_where P xs (Suc i))"

text \<open>\<^verbatim>\<open>s.find(c, pos)\<close>: the first position at or after \<open>pos\<close> that holds \<open>c\<close>.\<close>

definition find_char :: "string \<Rightarrow> char \<Rightarrow> nat \<Rightarrow> nat option" where
  "find_char s c pos = index_where (\<lambda>x. x = c) (drop pos s) pos"

text \<open>\<^verbatim>\<open>s.find_first_of(cs)\<close>: the first position that holds any character of \<open>cs\<close>.\<close>

definition find_first_of :: "string \<Rightarrow> string \<Rightarrow> nat option" where
  "find_first_of s cs = index_where (\<lambda>x. x \<in> set cs) s 0"

text \<open>\<^verbatim>\<open>s.find(pat)\<close>: the first position where \<open>pat\<close> starts.\<close>

primrec find_sub :: "string \<Rightarrow> string \<Rightarrow> nat \<Rightarrow> nat option" where
  "find_sub [] pat i = (if pat = [] then Some i else None)"
| "find_sub (x # xs) pat i =
     (if take (length pat) (x # xs) = pat then Some i else find_sub xs pat (Suc i))"

definition find_str :: "string \<Rightarrow> string \<Rightarrow> nat option" where
  "find_str s pat = find_sub s pat 0"

text \<open>\<^verbatim>\<open>s.erase(pos)\<close> removes everything from \<open>pos\<close> on.\<close>

definition erase :: "string \<Rightarrow> nat \<Rightarrow> string" where
  "erase s pos = take pos s"

text \<open>
  \<^verbatim>\<open>s.substr(pos, len)\<close> and \<^verbatim>\<open>s.substr(pos)\<close>. The C++ members throw
  \<^verbatim>\<open>std::out_of_range\<close> when \<open>pos > size\<close>; the reader only calls them with a
  position one past a character it has just found, so \<open>pos \<le> size\<close> there (lemma
  \<open>find_char_bound\<close> below).
\<close>

definition substr :: "string \<Rightarrow> nat \<Rightarrow> nat \<Rightarrow> string" where
  "substr s pos len = take len (drop pos s)"

definition substr_from :: "string \<Rightarrow> nat \<Rightarrow> string" where
  "substr_from s pos = drop pos s"

text \<open>
  \<^verbatim>\<open>std::isspace\<close>, \<^verbatim>\<open>std::isupper\<close>, \<^verbatim>\<open>std::tolower\<close> in the default "C" locale (the
  reader never sets another): the blanks are space and the codes 9 to 13, the uppercase
  letters are \<open>A\<close> to \<open>Z\<close>.
\<close>

definition isspace :: "char \<Rightarrow> bool" where
  "isspace ch = (let n = (of_char ch :: nat) in n = 32 \<or> (9 \<le> n \<and> n \<le> 13))"

definition isupper :: "char \<Rightarrow> bool" where
  "isupper ch = (let n = (of_char ch :: nat) in 65 \<le> n \<and> n \<le> 90)"

definition tolower :: "char \<Rightarrow> char" where
  "tolower ch = (if isupper ch then char_of ((of_char ch :: nat) + 32) else ch)"

subsection \<open>\<^verbatim>\<open>trim\<close> and \<^verbatim>\<open>removeInlineComment\<close>\<close>

text \<open>
  \<^verbatim>\<open>trim\<close> erases up to the first non-blank, then from after the last non-blank.
\<close>

definition trim :: "string \<Rightarrow> string" where
  "trim s = rev (dropWhile isspace (rev (dropWhile isspace s)))"

definition removeInlineComment :: "string \<Rightarrow> string" where
  "removeInlineComment s =
     (let commaOrHashtagPos = find_first_of s '';#'';
          doubleSlashPos = find_str s ''//''
      in case commaOrHashtagPos of
           Some p \<Rightarrow>
             (case doubleSlashPos of
                Some q \<Rightarrow> erase s (min p q)
              | None \<Rightarrow> erase s p)
         | None \<Rightarrow>
             (case doubleSlashPos of
                Some q \<Rightarrow> erase s q
              | None \<Rightarrow> s))"

subsection \<open>The two-level hash map\<close>

text \<open>
  A \<^verbatim>\<open>std::unordered_map\<close> is its entries and the capacity asked for so far.
  \<^verbatim>\<open>m[k]\<close> inserts a default-constructed value when \<open>k\<close> is absent and yields a
  reference to the value, which the caller then changes in place.
\<close>

record ('k, 'v) unordered_map =
  entries :: "'k \<rightharpoonup> 'v"
  reserved :: nat

definition empty_map :: "('k, 'v) unordered_map" where
  "empty_map = \<lparr>entries = Map.empty, reserved = 0\<rparr>"

text \<open>
  \<^verbatim>\<open>reserve(n)\<close> allocates buckets for \<open>n\<close> elements. It changes the capacity only
  (the bucket count the library then picks is implementation-defined; the model keeps
  the largest request), and it throws (\<^verbatim>\<open>std::length_error\<close>, \<^verbatim>\<open>std::bad_alloc\<close>
  or \<^verbatim>\<open>std::bad_array_new_length\<close>) when the allocator cannot serve the request.
  \<open>max_buckets\<close> is the largest request the allocator serves (at most its
  \<^verbatim>\<open>max_size()\<close>). The reader calls \<^verbatim>\<open>reserve\<close> in its constructor only, which
  is not \<^verbatim>\<open>noexcept\<close> and catches nothing: the exception leaves the constructor and
  no object is built.
\<close>

datatype exception = alloc_failure

definition reserve ::
  "nat \<Rightarrow> nat \<Rightarrow> ('k, 'v) unordered_map \<Rightarrow> exception + ('k, 'v) unordered_map" where
  "reserve max_buckets n m =
     (if max_buckets < n then Inl alloc_failure
      else Inr (m\<lparr>reserved := max (reserved m) n\<rparr>))"

text \<open>
  \<^verbatim>\<open>m[k]\<close> followed by a change \<open>f\<close> of the referenced value: one that cannot
  throw (\<open>subscript_apply\<close>) and one that can (\<open>subscript_try\<close>).
\<close>

definition subscript_apply ::
  "('k, 'v) unordered_map \<Rightarrow> 'k \<Rightarrow> 'v \<Rightarrow> ('v \<Rightarrow> 'v) \<Rightarrow> ('k, 'v) unordered_map" where
  "subscript_apply m k dflt f =
     m\<lparr>entries := (entries m)(k \<mapsto> f (case entries m k of None \<Rightarrow> dflt | Some v \<Rightarrow> v))\<rparr>"

definition subscript_try ::
  "('k, 'v) unordered_map \<Rightarrow> 'k \<Rightarrow> 'v \<Rightarrow> ('v \<Rightarrow> exception + 'v)
     \<Rightarrow> exception + ('k, 'v) unordered_map" where
  "subscript_try m k dflt f =
     (case f (case entries m k of None \<Rightarrow> dflt | Some v \<Rightarrow> v) of
        Inl e \<Rightarrow> Inl e
      | Inr v' \<Rightarrow> Inr (m\<lparr>entries := (entries m)(k \<mapsto> v')\<rparr>))"

text \<open>\<^verbatim>\<open>m[k] = v\<close> on a map of strings: the value, inserted empty when absent, becomes \<open>v\<close>.\<close>

definition assign :: "'k \<Rightarrow> string \<Rightarrow> ('k, string) unordered_map \<Rightarrow> ('k, string) unordered_map" where
  "assign k v m = subscript_apply m k [] (\<lambda>_. v)"

type_synonym section_map = "(string, string) unordered_map"
type_synonym ini_data = "(string, section_map) unordered_map"

subsection \<open>The constructor\<close>

text \<open>
  \<^verbatim>\<open>std::getline\<close> in a loop: a line ends at a newline, which is dropped; a last
  line without a newline is still a line; after the last newline nothing is left.
\<close>

primrec getline_loop :: "string \<Rightarrow> string \<Rightarrow> string list" where
  "getline_loop [] line = (if line = [] then [] else [line])"
| "getline_loop (c # cs) line =
     (if c = CHR 0x0A then line # getline_loop cs [] else getline_loop cs (line @ [c]))"

definition getlines :: "string \<Rightarrow> string list" where
  "getlines content = getline_loop content []"

text \<open>
  The body of the \<^verbatim>\<open>while\<close> loop, on the state it changes: \<open>data\<close> and
  \<open>currentSection\<close>. Each \<^verbatim>\<open>continue\<close> is a branch that returns the state as it is;
  the one call that can throw, \<^verbatim>\<open>data[currentSection].reserve(nKeys)\<close>, ends the
  loop with the exception.
\<close>

definition process_line ::
  "nat \<Rightarrow> nat \<Rightarrow> string \<Rightarrow> ini_data \<times> string \<Rightarrow> exception + ini_data \<times> string" where
  "process_line max_buckets nKeys line0 st =
     (let line = removeInlineComment line0;
          data = fst st;
          currentSection = snd st
      in if line = [] then Inr st
         else
           let posBracketStart = find_char line (CHR ''['') 0;
               posEqualSing = find_char line (CHR ''='') 0
           in case posBracketStart of
                Some pbs \<Rightarrow>
                  (case find_char line (CHR '']'') pbs of
                     None \<Rightarrow> Inr st
                   | Some posBracketEnd \<Rightarrow>
                       let sectionExtracted = trim (substr line (pbs + 1) (posBracketEnd - pbs - 1))
                       in case subscript_try data sectionExtracted empty_map
                                 (reserve max_buckets nKeys) of
                            Inl e \<Rightarrow> Inl e
                          | Inr data' \<Rightarrow> Inr (data', sectionExtracted))
              | None \<Rightarrow>
                  (case posEqualSing of
                     Some pe \<Rightarrow>
                       let keyExtracted = trim (substr line 0 pe);
                           val = trim (substr_from line (pe + 1))
                       in Inr (subscript_apply data currentSection empty_map
                                 (assign keyExtracted val),
                               currentSection)
                   | None \<Rightarrow> Inr st))"

fun parse_lines ::
  "nat \<Rightarrow> nat \<Rightarrow> string list \<Rightarrow> ini_data \<times> string \<Rightarrow> exception + ini_data \<times> string" where
  "parse_lines max_buckets nKeys [] st = Inr st"
| "parse_lines max_buckets nKeys (l # ls) st =
     (case process_line max_buckets nKeys l st of
        Inl e \<Rightarrow> Inl e
      | Inr st' \<Rightarrow> parse_lines max_buckets nKeys ls st')"

text \<open>
  The file is \<open>None\<close> when it cannot be opened and \<open>Some content\<close> otherwise, with
  \<open>content\<close> the characters the stream delivers before it fails or ends. The result
  is the \<open>data\<close> of the object built (\<open>Inr\<close>), or the exception that left the
  constructor (\<open>Inl\<close>). A file that cannot be opened returns before any
  \<^verbatim>\<open>reserve\<close>; every other file reaches \<^verbatim>\<open>data.reserve(nSections)\<close>.
\<close>

definition K4IniReader :: "nat \<Rightarrow> string option \<Rightarrow> nat \<Rightarrow> nat \<Rightarrow> exception + ini_data" where
  "K4IniReader max_buckets file nSections nKeys =
     (case file of
        None \<Rightarrow> Inr empty_map
      | Some content \<Rightarrow>
          (case reserve max_buckets nSections empty_map of
             Inl e \<Rightarrow> Inl e
           | Inr data \<Rightarrow>
               (case parse_lines max_buckets nKeys (getlines content) (data, []) of
                  Inl e \<Rightarrow> Inl e
                | Inr st \<Rightarrow> Inr (fst st))))"

subsection \<open>\<^verbatim>\<open>find\<close> and \<^verbatim>\<open>read<T>\<close>\<close>

text \<open>
  \<^verbatim>\<open>find\<close> returns \<^verbatim>\<open>false\<close> (here \<open>None\<close>) when the section or the key is
  missing, and otherwise \<^verbatim>\<open>true\<close> with the value in \<open>out\<close> (here \<open>Some\<close>).
\<close>

definition find_value :: "ini_data \<Rightarrow> string \<Rightarrow> string \<Rightarrow> string option" where
  "find_value data s k =
     (case entries data s of
        None \<Rightarrow> None
      | Some sec \<Rightarrow>
          (case entries sec k of
             None \<Rightarrow> None
           | Some v \<Rightarrow> Some v))"

text \<open>
  \<^verbatim>\<open>read<T>\<close> picks its branch at compile time (\<^verbatim>\<open>if constexpr\<close>), so each
  instance is a function of its own. No branch throws: the method is \<^verbatim>\<open>noexcept\<close>
  and every path returns a \<open>T\<close>.
\<close>

definition read_bool :: "ini_data \<Rightarrow> string \<Rightarrow> string \<Rightarrow> bool \<Rightarrow> bool \<Rightarrow> bool" where
  "read_bool data section key defaultValue toLowerString =
     (case find_value data section key of
        None \<Rightarrow> defaultValue
      | Some outValue \<Rightarrow>
          (outValue = ''true'' \<or> outValue = ''1'' \<or> outValue = ''on'' \<or> outValue = ''yes''))"

definition read_char :: "ini_data \<Rightarrow> string \<Rightarrow> string \<Rightarrow> char \<Rightarrow> bool \<Rightarrow> char" where
  "read_char data section key defaultValue toLowerString =
     (case find_value data section key of
        None \<Rightarrow> defaultValue
      | Some outValue \<Rightarrow>
          (case outValue of [] \<Rightarrow> defaultValue | c # _ \<Rightarrow> c))"

text \<open>
  \<^verbatim>\<open>std::from_chars\<close> is the standard library's. Its contract (ISO C++17,
  [charconv.from.chars]): on success it stores the value; when no characters match the
  pattern (\<^verbatim>\<open>invalid_argument\<close>) or the value is not representable
  (\<^verbatim>\<open>result_out_of_range\<close>) it leaves the output as it was. The arithmetic branch
  takes the conversion as a parameter: the one for the integer types and the one for
  the floating-point types, both below.
\<close>

datatype errc = invalid_argument | result_out_of_range

definition read_arithmetic ::
  "(string \<Rightarrow> errc + 'a) \<Rightarrow> ini_data \<Rightarrow> string \<Rightarrow> string \<Rightarrow> 'a \<Rightarrow> bool \<Rightarrow> 'a" where
  "read_arithmetic from_chars data section key defaultValue toLowerString =
     (case find_value data section key of
        None \<Rightarrow> defaultValue
      | Some outValue \<Rightarrow>
          (let outParsedValue = defaultValue
           in case from_chars outValue of
                Inl ec \<Rightarrow> outParsedValue
              | Inr v \<Rightarrow> v))"

definition read_string :: "ini_data \<Rightarrow> string \<Rightarrow> string \<Rightarrow> string \<Rightarrow> bool \<Rightarrow> string" where
  "read_string data section key defaultValue toLowerString =
     (case find_value data section key of
        None \<Rightarrow> defaultValue
      | Some outValue \<Rightarrow>
          (if toLowerString then
             (let hasUpper = list_ex isupper outValue
              in if hasUpper then map tolower outValue else outValue)
           else outValue))"

text \<open>Any other \<open>T\<close>: both paths end in \<^verbatim>\<open>return defaultValue\<close>.\<close>

definition read_other :: "ini_data \<Rightarrow> string \<Rightarrow> string \<Rightarrow> 'a \<Rightarrow> bool \<Rightarrow> 'a" where
  "read_other data section key defaultValue toLowerString =
     (case find_value data section key of
        None \<Rightarrow> defaultValue
      | Some outValue \<Rightarrow> defaultValue)"

subsection \<open>\<^verbatim>\<open>std::from_chars\<close> for the integer types\<close>

text \<open>
  An integer type is its signedness and width; its values are the integers of its
  range. The pattern of \<^verbatim>\<open>from_chars\<close> in base 10: a minus sign (signed types
  only; no plus sign, no leading blanks) and then all the digits that follow.
\<close>

datatype int_type = SignedInt nat | UnsignedInt nat

fun type_min :: "int_type \<Rightarrow> int" where
  "type_min (SignedInt w) = - (2 ^ (w - 1))"
| "type_min (UnsignedInt w) = 0"

fun type_max :: "int_type \<Rightarrow> int" where
  "type_max (SignedInt w) = 2 ^ (w - 1) - 1"
| "type_max (UnsignedInt w) = 2 ^ w - 1"

fun accepts_minus :: "int_type \<Rightarrow> bool" where
  "accepts_minus (SignedInt w) = True"
| "accepts_minus (UnsignedInt w) = False"

definition representable :: "int_type \<Rightarrow> int \<Rightarrow> bool" where
  "representable T v = (type_min T \<le> v \<and> v \<le> type_max T)"

definition isdigit :: "char \<Rightarrow> bool" where
  "isdigit ch = (let n = (of_char ch :: nat) in 48 \<le> n \<and> n \<le> 57)"

definition digits_value :: "string \<Rightarrow> int" where
  "digits_value ds = foldl (\<lambda>acc ch. 10 * acc + (int (of_char ch) - 48)) 0 ds"

definition from_chars_int :: "int_type \<Rightarrow> string \<Rightarrow> errc + int" where
  "from_chars_int T s =
     (let neg = (accepts_minus T \<and> take 1 s = ''-'');
          ds = takeWhile isdigit (if neg then drop 1 s else s)
      in if ds = [] then Inl invalid_argument
         else
           let v = (if neg then - digits_value ds else digits_value ds)
           in if representable T v then Inr v else Inl result_out_of_range)"

definition read_int ::
  "int_type \<Rightarrow> ini_data \<Rightarrow> string \<Rightarrow> string \<Rightarrow> int \<Rightarrow> bool \<Rightarrow> int" where
  "read_int T = read_arithmetic (from_chars_int T)"

subsection \<open>\<^verbatim>\<open>std::from_chars\<close> for the floating-point types\<close>

text \<open>
  The pattern of \<^verbatim>\<open>from_chars\<close> for a floating-point type with the default
  \<^verbatim>\<open>chars_format::general\<close> is the subject sequence of \<^verbatim>\<open>strtod\<close> in the "C"
  locale, without leading blanks, without a plus sign before the number and without a
  hexadecimal form: an optional minus sign and then either decimal digits with at most
  one point among them (one digit at least) and an optional exponent (\<open>e\<close> or \<open>E\<close>,
  an optional sign, one digit at least), or \<open>inf\<close> or \<open>infinity\<close>, or \<open>nan\<close> with an
  optional parenthesised sequence of letters, digits and underscores, the words in any
  case. The conversion takes the longest prefix of the text that has this form.
\<close>

definition isalpha :: "char \<Rightarrow> bool" where
  "isalpha ch = (let n = (of_char ch :: nat) in (65 \<le> n \<and> n \<le> 90) \<or> (97 \<le> n \<and> n \<le> 122))"

definition is_nchar :: "char \<Rightarrow> bool" where
  "is_nchar ch = (isdigit ch \<or> isalpha ch \<or> ch = CHR ''_'')"

text \<open>The parts of a decimal text: digits, an optional point and digits, and what follows.\<close>

definition int_part :: "string \<Rightarrow> string" where
  "int_part b = takeWhile isdigit b"

definition after_int :: "string \<Rightarrow> string" where
  "after_int b = dropWhile isdigit b"

definition has_point :: "string \<Rightarrow> bool" where
  "has_point b = (take 1 (after_int b) = ''.'')"

definition frac_part :: "string \<Rightarrow> string" where
  "frac_part b = (if has_point b then takeWhile isdigit (drop 1 (after_int b)) else [])"

definition after_mantissa :: "string \<Rightarrow> string" where
  "after_mantissa b =
     (if has_point b then dropWhile isdigit (drop 1 (after_int b)) else after_int b)"

definition exponent_digits :: "string \<Rightarrow> string" where
  "exponent_digits y = (if take 1 y = ''+'' \<or> take 1 y = ''-'' then drop 1 y else y)"

definition exponent_part :: "string \<Rightarrow> bool" where
  "exponent_part x =
     (x = [] \<or>
      ((take 1 x = ''e'' \<or> take 1 x = ''E'')
        \<and> exponent_digits (drop 1 x) \<noteq> [] \<and> list_all isdigit (exponent_digits (drop 1 x))))"

definition exponent_value :: "string \<Rightarrow> int" where
  "exponent_value x =
     (if x = [] then 0
      else if take 1 (drop 1 x) = ''-'' then - digits_value (exponent_digits (drop 1 x))
      else digits_value (exponent_digits (drop 1 x)))"

definition decimal_body :: "string \<Rightarrow> bool" where
  "decimal_body b = ((int_part b \<noteq> [] \<or> frac_part b \<noteq> []) \<and> exponent_part (after_mantissa b))"

text \<open>The number a decimal text denotes, exactly.\<close>

definition decimal_value :: "string \<Rightarrow> rat" where
  "decimal_value b =
     of_int (digits_value (int_part b @ frac_part b))
       * 10 powi (exponent_value (after_mantissa b) - int (length (frac_part b)))"

definition inf_body :: "string \<Rightarrow> bool" where
  "inf_body b = (map tolower b = ''inf'' \<or> map tolower b = ''infinity'')"

definition nan_body :: "string \<Rightarrow> bool" where
  "nan_body b =
     (map tolower (take 3 b) = ''nan''
      \<and> (drop 3 b = [] \<or>
           (take 1 (drop 3 b) = ''('' \<and> 5 \<le> length b \<and> last b = CHR '')''
            \<and> list_all is_nchar (butlast (drop 4 b)))))"

definition unsigned_body :: "string \<Rightarrow> string" where
  "unsigned_body tok = (if take 1 tok = ''-'' then drop 1 tok else tok)"

definition float_token :: "string \<Rightarrow> bool" where
  "float_token tok =
     (decimal_body (unsigned_body tok) \<or> inf_body (unsigned_body tok)
        \<or> nan_body (unsigned_body tok))"

text \<open>The longest prefix of \<open>s\<close>, of length \<open>n\<close> at most, that satisfies \<open>P\<close>.\<close>

fun longest_match :: "(string \<Rightarrow> bool) \<Rightarrow> string \<Rightarrow> nat \<Rightarrow> string option" where
  "longest_match P s 0 = (if P [] then Some [] else None)"
| "longest_match P s (Suc n) =
     (if P (take (Suc n) s) then Some (take (Suc n) s) else longest_match P s n)"

text \<open>
  A floating-point type \<open>'f\<close> is given by what the conversion needs of it: the value
  nearest to a number with a sign (\<open>True\<close> for minus) and an exact magnitude, or
  \<open>None\<close> when the number is outside the range of the type, and its infinities and
  quiet NaNs. The values themselves and their rounding are not modelled.
\<close>

record 'f float_type =
  nearest :: "bool \<Rightarrow> rat \<Rightarrow> 'f option"
  infinity :: "bool \<Rightarrow> 'f"
  quiet_nan :: "bool \<Rightarrow> 'f"

definition float_value :: "'f float_type \<Rightarrow> string \<Rightarrow> 'f option" where
  "float_value F tok =
     (let negative = (take 1 tok = ''-'');
          body = unsigned_body tok
      in if inf_body body then Some (infinity F negative)
         else if nan_body body then Some (quiet_nan F negative)
         else nearest F negative (decimal_value body))"

definition from_chars_float :: "'f float_type \<Rightarrow> string \<Rightarrow> errc + 'f" where
  "from_chars_float F s =
     (case longest_match float_token s (length s) of
        None \<Rightarrow> Inl invalid_argument
      | Some tok \<Rightarrow>
          (case float_value F tok of
             None \<Rightarrow> Inl result_out_of_range
           | Some v \<Rightarrow> Inr v))"

definition read_float ::
  "'f float_type \<Rightarrow> ini_data \<Rightarrow> string \<Rightarrow> string \<Rightarrow> 'f \<Rightarrow> bool \<Rightarrow> 'f" where
  "read_float F = read_arithmetic (from_chars_float F)"

text \<open>
  A format for examples: it holds every number up to a bound exactly and nothing
  beyond.
\<close>

datatype exact = Finite rat | Infinite bool | NotANumber

definition exact_upto :: "rat \<Rightarrow> exact float_type" where
  "exact_upto bound =
     \<lparr>nearest = (\<lambda>negative q.
        if q \<le> bound then Some (Finite (if negative then - q else q)) else None),
      infinity = Infinite, quiet_nan = (\<lambda>_. NotANumber)\<rparr>"

subsection \<open>The specification's vocabulary for numeric texts\<close>

text \<open>
  A numeric token for an integer type, in the words of the specification: a text that
  the conversion accepts as a whole, that is a minus sign where the type is signed and
  then one digit or more. Its value is the decimal reading of its digits.
\<close>

definition numeric_token :: "int_type \<Rightarrow> string \<Rightarrow> bool" where
  "numeric_token T tok =
     (if take 1 tok = ''-''
      then accepts_minus T \<and> drop 1 tok \<noteq> [] \<and> list_all isdigit (drop 1 tok)
      else tok \<noteq> [] \<and> list_all isdigit tok)"

definition token_value :: "string \<Rightarrow> int" where
  "token_value tok =
     (if take 1 tok = ''-'' then - digits_value (drop 1 tok) else digits_value tok)"

text \<open>
  A numeric token for a floating-point type is a text of the form above
  (\<open>float_token\<close>), and its value in the type is \<open>float_value\<close>.
\<close>

subsection \<open>The specification's vocabulary for comment markers\<close>

text \<open>
  The two marker families: position \<open>i\<close> holds \<open>;\<close> or \<open>#\<close>, and the two-character
  marker \<open>//\<close> starts at position \<open>i\<close>.
\<close>

definition semi_or_hash_at :: "string \<Rightarrow> nat \<Rightarrow> bool" where
  "semi_or_hash_at s i = (i < length s \<and> (s ! i = CHR '';'' \<or> s ! i = CHR ''#''))"

definition double_slash_at :: "string \<Rightarrow> nat \<Rightarrow> bool" where
  "double_slash_at s i = (Suc i < length s \<and> s ! i = CHR ''/'' \<and> s ! Suc i = CHR ''/'')"

subsection \<open>A file written line by line\<close>

text \<open>The content of a file whose lines are \<open>ls\<close>, each ended by a newline.\<close>

definition join_lines :: "string list \<Rightarrow> string" where
  "join_lines ls = concat (map (\<lambda>l. l @ [CHR 0x0A]) ls)"

subsection \<open>The specification's vocabulary for lines\<close>

text \<open>
  In the words of the specification, on the line with its comment stripped. A section
  header has a \<open>[\<close> and a \<open>]\<close> at or after the first \<open>[\<close>; its name is the text
  strictly between the two, trimmed. A key-value line has no \<open>[\<close> and has a \<open>=\<close>; the
  key is the text left of the first \<open>=\<close> and the value the text right of it, each
  trimmed.
\<close>

definition header_name :: "string \<Rightarrow> string option" where
  "header_name l =
     (let line = removeInlineComment l;
          from_bracket = dropWhile (\<lambda>c. c \<noteq> CHR ''['') line
      in if CHR ''['' \<in> set line \<and> CHR '']'' \<in> set from_bracket
         then Some (trim (takeWhile (\<lambda>c. c \<noteq> CHR '']'') (tl from_bracket)))
         else None)"

definition key_value :: "string \<Rightarrow> (string \<times> string) option" where
  "key_value l =
     (let line = removeInlineComment l
      in if CHR ''['' \<notin> set line \<and> CHR ''='' \<in> set line
         then Some (trim (takeWhile (\<lambda>c. c \<noteq> CHR ''='') line),
                    trim (tl (dropWhile (\<lambda>c. c \<noteq> CHR ''='') line)))
         else None)"

text \<open>
  The assignments of a file in source order, each with the section that is current
  where it stands, and the value of the last assignment to a key of a section.
\<close>

fun assignments :: "string \<Rightarrow> string list \<Rightarrow> (string \<times> string \<times> string) list" where
  "assignments cur [] = []"
| "assignments cur (l # ls) =
     (case header_name l of
        Some name \<Rightarrow> assignments name ls
      | None \<Rightarrow>
          (case key_value l of
             Some (k, v) \<Rightarrow> (cur, k, v) # assignments cur ls
           | None \<Rightarrow> assignments cur ls))"

definition last_assigned ::
  "(string \<times> string \<times> string) list \<Rightarrow> string \<Rightarrow> string \<Rightarrow> string option" where
  "last_assigned as s k =
     (case filter (\<lambda>(s', k', v). s' = s \<and> k' = k) as of
        [] \<Rightarrow> None
      | x # xs \<Rightarrow> Some (snd (snd (last (x # xs)))))"

section \<open>Properties\<close>

subsection \<open>Lookup\<close>

lemma find_value_None_iff:
  "find_value data s k = None \<longleftrightarrow>
     (entries data s = None \<or> (\<exists>sec. entries data s = Some sec \<and> entries sec k = None))"
  by (auto simp: find_value_def split: option.splits)

subsection \<open>Searching a line, and reading a file line by line\<close>

lemma index_where_takeWhile:
  "index_where P xs i0 =
     (if \<exists>x\<in>set xs. P x then Some (i0 + length (takeWhile (\<lambda>x. \<not> P x) xs)) else None)"
  by (induction xs arbitrary: i0) auto

lemma find_char_0:
  "find_char s c 0 =
     (if c \<in> set s then Some (length (takeWhile (\<lambda>x. x \<noteq> c) s)) else None)"
  by (simp add: find_char_def index_where_takeWhile)

lemma find_char_from:
  "find_char s c pos =
     (if c \<in> set (drop pos s)
      then Some (pos + length (takeWhile (\<lambda>x. x \<noteq> c) (drop pos s))) else None)"
  by (simp add: find_char_def index_where_takeWhile)

lemma takeWhile_shorter:
  "x \<in> set xs \<Longrightarrow> \<not> P x \<Longrightarrow> length (takeWhile P xs) < length xs"
  by (induction xs) auto

lemma find_char_bound: "find_char s c pos = Some p \<Longrightarrow> pos \<le> p \<and> p < length s"
proof -
  assume a: "find_char s c pos = Some p"
  then have in_set: "c \<in> set (drop pos s)"
    and p: "p = pos + length (takeWhile (\<lambda>x. x \<noteq> c) (drop pos s))"
    by (auto simp: find_char_from split: if_splits)
  have "length (takeWhile (\<lambda>x. x \<noteq> c) (drop pos s)) < length (drop pos s)"
    by (rule takeWhile_shorter [OF in_set]) simp
  with p show ?thesis by simp
qed

lemma drop_takeWhile_length:
  "drop (length (takeWhile P xs)) xs = dropWhile P xs"
  by (simp add: dropWhile_eq_drop)

lemma parse_lines_append:
  "parse_lines max_buckets nKeys (xs @ ys) st =
     (case parse_lines max_buckets nKeys xs st of
        Inl e \<Rightarrow> Inl e
      | Inr st' \<Rightarrow> parse_lines max_buckets nKeys ys st')"
  by (induction xs arbitrary: st) (simp_all split: sum.splits)

lemma getline_loop_line:
  "CHR 0x0A \<notin> set l \<Longrightarrow>
     getline_loop (l @ CHR 0x0A # rest) acc = (acc @ l) # getline_loop rest []"
  by (induction l arbitrary: acc) auto

lemma getlines_join_lines:
  "\<forall>l\<in>set ls. CHR 0x0A \<notin> set l \<Longrightarrow> getline_loop (join_lines ls) [] = ls"
  by (induction ls) (simp_all add: join_lines_def getline_loop_line)

subsection \<open>What the loop body does to a header, a key-value line and any other line\<close>

lemma process_line_unterminated:
  assumes "CHR ''['' \<in> set (removeInlineComment l)"
    and "CHR '']'' \<notin> set (dropWhile (\<lambda>c. c \<noteq> CHR ''['') (removeInlineComment l))"
  shows "process_line max_buckets nKeys l st = Inr st"
proof -
  let ?line = "removeInlineComment l"
  have ne: "?line \<noteq> []" using assms(1) by auto
  have open_at: "find_char ?line (CHR ''['') 0
      = Some (length (takeWhile (\<lambda>x. x \<noteq> CHR ''['') ?line))"
    using assms(1) by (simp add: find_char_0)
  have "find_char ?line (CHR '']'') (length (takeWhile (\<lambda>x. x \<noteq> CHR ''['') ?line)) = None"
    using assms(2) by (simp add: find_char_from drop_takeWhile_length)
  with ne open_at show ?thesis
    by (simp add: process_line_def Let_def)
qed

lemma takeWhile_bracket_body:
  assumes "xs = b # ys" and "b \<noteq> e"
  shows "take (length (takeWhile (\<lambda>c. c \<noteq> e) xs) - 1) ys = takeWhile (\<lambda>c. c \<noteq> e) ys"
  using assms by (simp add: takeWhile_eq_take [symmetric])

lemma process_line_header:
  assumes "header_name l = Some name"
  shows "process_line max_buckets nKeys l (d, cur) =
           (case subscript_try d name empty_map (reserve max_buckets nKeys) of
              Inl e \<Rightarrow> Inl e
            | Inr d' \<Rightarrow> Inr (d', name))"
proof -
  let ?line = "removeInlineComment l"
  let ?pbs = "length (takeWhile (\<lambda>c. c \<noteq> CHR ''['') ?line)"
  let ?fb = "dropWhile (\<lambda>c. c \<noteq> CHR ''['') ?line"
  from assms have open_in: "CHR ''['' \<in> set ?line" and close_in: "CHR '']'' \<in> set ?fb"
    and name: "name = trim (takeWhile (\<lambda>c. c \<noteq> CHR '']'') (tl ?fb))"
    by (auto simp: header_name_def Let_def split: if_splits)
  have ne: "?line \<noteq> []" using open_in by auto
  have open_at: "find_char ?line (CHR ''['') 0 = Some ?pbs"
    using open_in by (simp add: find_char_0)
  have fb: "drop ?pbs ?line = ?fb"
    by (rule drop_takeWhile_length)
  have close_at: "find_char ?line (CHR '']'') ?pbs
      = Some (?pbs + length (takeWhile (\<lambda>c. c \<noteq> CHR '']'') ?fb))"
    using close_in by (simp add: find_char_from fb)
  from open_in have "?fb \<noteq> []" by simp
  moreover have "hd ?fb = CHR ''[''"
    using open_in hd_dropWhile [of "\<lambda>c. c \<noteq> CHR ''[''" ?line] by simp
  ultimately have fb_cons: "?fb = CHR ''['' # tl ?fb"
    by (cases ?fb) auto
  have "drop (?pbs + 1) ?line = tl ?fb"
    using fb by (metis drop_Suc tl_drop Suc_eq_plus1)
  moreover have "take (length (takeWhile (\<lambda>c. c \<noteq> CHR '']'') ?fb) - 1) (tl ?fb)
      = takeWhile (\<lambda>c. c \<noteq> CHR '']'') (tl ?fb)"
    by (rule takeWhile_bracket_body [OF fb_cons]) simp
  ultimately have "substr ?line (?pbs + 1)
      (?pbs + length (takeWhile (\<lambda>c. c \<noteq> CHR '']'') ?fb) - ?pbs - 1)
      = takeWhile (\<lambda>c. c \<noteq> CHR '']'') (tl ?fb)"
    by (simp add: substr_def)
  with ne open_at close_at name show ?thesis
    by (simp add: process_line_def Let_def split: sum.splits)
qed

lemma process_line_key_value:
  assumes "header_name l = None" and "key_value l = Some (k, v)"
  shows "process_line max_buckets nKeys l (d, cur)
           = Inr (subscript_apply d cur empty_map (assign k v), cur)"
proof -
  let ?line = "removeInlineComment l"
  from assms(2) have no_open: "CHR ''['' \<notin> set ?line" and eq_in: "CHR ''='' \<in> set ?line"
    and k: "k = trim (takeWhile (\<lambda>c. c \<noteq> CHR ''='') ?line)"
    and v: "v = trim (tl (dropWhile (\<lambda>c. c \<noteq> CHR ''='') ?line))"
    by (auto simp: key_value_def Let_def split: if_splits)
  have ne: "?line \<noteq> []" using eq_in by auto
  have "drop (length (takeWhile (\<lambda>c. c \<noteq> CHR ''='') ?line) + 1) ?line
      = tl (dropWhile (\<lambda>c. c \<noteq> CHR ''='') ?line)"
    by (metis drop_takeWhile_length drop_Suc tl_drop Suc_eq_plus1)
  with ne no_open eq_in k v show ?thesis
    by (simp add: process_line_def Let_def find_char_0 substr_def substr_from_def
        takeWhile_eq_take [symmetric])
qed

lemma process_line_ignored:
  assumes "header_name l = None" and "key_value l = None"
  shows "process_line max_buckets nKeys l st = Inr st"
proof (cases "CHR ''['' \<in> set (removeInlineComment l)")
  case True
  with assms(1) have "CHR '']'' \<notin> set (dropWhile (\<lambda>c. c \<noteq> CHR ''['') (removeInlineComment l))"
    by (auto simp: header_name_def Let_def split: if_splits)
  with True show ?thesis by (rule process_line_unterminated)
next
  case False
  with assms(2) have "CHR ''='' \<notin> set (removeInlineComment l)"
    by (auto simp: key_value_def Let_def split: if_splits)
  with False show ?thesis
    by (simp add: process_line_def Let_def find_char_0)
qed

subsection \<open>When construction succeeds, and lookups in the document built\<close>

lemma subscript_try_reserve:
  "subscript_try d name empty_map (reserve max_buckets nKeys) =
     (if max_buckets < nKeys then Inl alloc_failure
      else Inr (d\<lparr>entries := (entries d)(name \<mapsto>
             (case entries d name of None \<Rightarrow> empty_map | Some m \<Rightarrow> m)
               \<lparr>reserved := max (reserved (case entries d name of None \<Rightarrow> empty_map | Some m \<Rightarrow> m)) nKeys\<rparr>)\<rparr>))"
  by (simp add: subscript_try_def reserve_def)

lemma process_line_succeeds:
  assumes "nKeys \<le> max_buckets"
  shows "\<exists>st'. process_line max_buckets nKeys l st = Inr st'"
proof (cases "header_name l")
  case (Some name)
  obtain d cur where st: "st = (d, cur)" by (cases st)
  show ?thesis
    using assms by (simp add: st process_line_header [OF Some] subscript_try_reserve)
next
  case None
  obtain d cur where st: "st = (d, cur)" by (cases st)
  show ?thesis
  proof (cases "key_value l")
    case None': None
    with None show ?thesis by (simp add: process_line_ignored)
  next
    case (Some kv)
    then show ?thesis
      using None by (cases kv) (simp add: st process_line_key_value)
  qed
qed

lemma parse_lines_succeeds:
  assumes "nKeys \<le> max_buckets"
  shows "\<exists>st'. parse_lines max_buckets nKeys ls st = Inr st'"
proof (induction ls arbitrary: st)
  case Nil
  then show ?case by simp
next
  case (Cons l ls)
  from process_line_succeeds [OF assms] obtain st1
    where "process_line max_buckets nKeys l st = Inr st1" by blast
  with Cons.IH [of st1] show ?case by simp
qed

lemma K4IniReader_succeeds:
  assumes "nSections \<le> max_buckets" and "nKeys \<le> max_buckets"
  shows "\<exists>d. K4IniReader max_buckets file nSections nKeys = Inr d"
proof (cases "file")
  case None
  then show ?thesis by (simp add: K4IniReader_def)
next
  case (Some content)
  from assms(1) obtain d0 :: ini_data where
    d0: "reserve max_buckets nSections empty_map = Inr d0"
    by (simp add: reserve_def)
  from parse_lines_succeeds [OF assms(2)] obtain st' where
    "parse_lines max_buckets nKeys (getlines content) (d0, []) = Inr st'"
    by blast
  with d0 Some show ?thesis
    by (simp add: K4IniReader_def)
qed

lemma find_value_reserve:
  "subscript_try d name empty_map (reserve max_buckets nKeys) = Inr d'
     \<Longrightarrow> find_value d' s k = find_value d s k"
proof -
  assume "subscript_try d name empty_map (reserve max_buckets nKeys) = Inr d'"
  then have "entries d' = (entries d)(name \<mapsto>
      (case entries d name of None \<Rightarrow> empty_map | Some m \<Rightarrow> m)
        \<lparr>reserved := max (reserved (case entries d name of None \<Rightarrow> empty_map | Some m \<Rightarrow> m)) nKeys\<rparr>)"
    by (auto simp: subscript_try_reserve split: if_splits)
  then show ?thesis
    by (simp add: find_value_def empty_map_def split: option.splits)
qed

lemma find_value_assign:
  "find_value (subscript_apply d cur empty_map (assign k' v)) s k
     = (if s = cur \<and> k = k' then Some v else find_value d s k)"
  by (simp add: find_value_def subscript_apply_def assign_def empty_map_def
      split: option.splits)

lemma last_assigned_Nil: "last_assigned [] s k = None"
  by (simp add: last_assigned_def)

lemma last_assigned_Cons:
  "last_assigned ((s', k', v) # as) s k =
     (case last_assigned as s k of
        Some w \<Rightarrow> Some w
      | None \<Rightarrow> if s' = s \<and> k' = k then Some v else None)"
  by (simp add: last_assigned_def split: list.splits)

lemma find_value_parse_lines:
  "parse_lines max_buckets nKeys ls (d, cur) = Inr st \<Longrightarrow>
   find_value (fst st) s k =
     (case last_assigned (assignments cur ls) s k of
        Some v \<Rightarrow> Some v
      | None \<Rightarrow> find_value d s k)"
proof (induction ls arbitrary: d cur)
  case Nil
  then show ?case by (auto simp: last_assigned_Nil)
next
  case (Cons l ls)
  show ?case
  proof (cases "header_name l")
    case (Some name)
    with Cons.prems obtain d' where
      d': "subscript_try d name empty_map (reserve max_buckets nKeys) = Inr d'"
      and rest: "parse_lines max_buckets nKeys ls (d', name) = Inr st"
      by (auto simp: process_line_header split: sum.splits)
    from Cons.IH [OF rest] find_value_reserve [OF d'] Some show ?thesis
      by (simp cong: option.case_cong)
  next
    case None
    show ?thesis
    proof (cases "key_value l")
      case None': None
      with None Cons.prems have "parse_lines max_buckets nKeys ls (d, cur) = Inr st"
        by (simp add: process_line_ignored)
      from Cons.IH [OF this] None None' show ?thesis by simp
    next
      case (Some kv)
      obtain k' v where kv: "kv = (k', v)" by (cases kv)
      with None Some Cons.prems have
        "parse_lines max_buckets nKeys ls
           (subscript_apply d cur empty_map (assign k' v), cur) = Inr st"
        by (simp add: process_line_key_value)
      from Cons.IH [OF this] None Some kv show ?thesis
        by (auto simp: find_value_assign last_assigned_Cons split: option.splits)
    qed
  qed
qed

lemma find_value_K4IniReader:
  assumes "K4IniReader max_buckets (Some content) nSections nKeys = Inr d"
  shows "find_value d s k = last_assigned (assignments [] (getlines content)) s k"
proof -
  from assms obtain d0 st where d0: "reserve max_buckets nSections empty_map = Inr d0"
    and st: "parse_lines max_buckets nKeys (getlines content) (d0, []) = Inr st"
    and d: "d = fst st"
    by (auto simp: K4IniReader_def split: sum.splits)
  from d0 have "find_value d0 s k = None"
    by (auto simp: find_value_def reserve_def empty_map_def split: if_splits)
  with find_value_parse_lines [OF st, of s k] d show ?thesis
    by (simp split: option.splits)
qed

lemma find_value_K4IniReader_None:
  assumes "K4IniReader max_buckets None nSections nKeys = Inr d"
  shows "find_value d s k = None"
  using assms by (auto simp: K4IniReader_def find_value_def empty_map_def)

subsection \<open>Reads that miss\<close>

text \<open>
  C1. A lookup misses when the section is absent from the document or the key is absent
  from the section. Every instance of \<^verbatim>\<open>read\<close> then returns the default it was
  given, unchanged: the boolean, character, arithmetic (with any conversion), integer
  and text instances and the fallback for other types. No instance has an error
  result: each is a total function into the requested type.
\<close>

theorem read_miss_returns_default:
  assumes "entries data section = None \<or>
           (\<exists>sec. entries data section = Some sec \<and> entries sec key = None)"
  shows "read_bool data section key b t = b
       \<and> read_char data section key c t = c
       \<and> read_arithmetic from_chars data section key n t = n
       \<and> read_int T data section key i t = i
       \<and> read_string data section key s t = s
       \<and> read_other data section key x t = x"
proof -
  from assms have miss: "find_value data section key = None"
    by (simp add: find_value_None_iff)
  then show ?thesis
    by (simp add: read_bool_def read_char_def read_arithmetic_def read_int_def
        read_string_def read_other_def)
qed

theorem read_miss_returns_default_witness:
  "\<exists>d. K4IniReader (2 ^ 60) (Some ''[A]\<newline>k=1'') 32 8 = Inr d
     \<and> read_int (SignedInt 32) d ''A'' ''z'' (- 1) False = - 1
     \<and> read_string d ''B'' ''k'' ''dflt'' False = ''dflt''
     \<and> read_bool d ''B'' ''k'' True False = True"
proof -
  obtain d where built: "K4IniReader (2 ^ 60) (Some ''[A]\<newline>k=1'') 32 8 = Inr d"
    using K4IniReader_succeeds [of 32 "2 ^ 60" 8 "Some ''[A]\<newline>k=1''"] by auto
  have "find_value d ''A'' ''z'' = None"
    unfolding find_value_K4IniReader [OF built] by code_simp
  then have h1: "entries d ''A'' = None \<or>
      (\<exists>sec. entries d ''A'' = Some sec \<and> entries sec ''z'' = None)"
    by (simp only: find_value_None_iff)
  have "find_value d ''B'' ''k'' = None"
    unfolding find_value_K4IniReader [OF built] by code_simp
  then have h2: "entries d ''B'' = None \<or>
      (\<exists>sec. entries d ''B'' = Some sec \<and> entries sec ''k'' = None)"
    by (simp only: find_value_None_iff)
  have reads: "read_int (SignedInt 32) d ''A'' ''z'' (- 1) False = - 1
     \<and> read_string d ''B'' ''k'' ''dflt'' False = ''dflt''
     \<and> read_bool d ''B'' ''k'' True False = True"
    using read_miss_returns_default [OF h1, where b = True and t = False and c = "CHR ''x''"
        and from_chars = "from_chars_int (SignedInt 32)" and n = 0
        and T = "SignedInt 32" and i = "- 1" and s = "''dflt''" and x = "()"]
      read_miss_returns_default [OF h2, where b = True and t = False and c = "CHR ''x''"
        and from_chars = "from_chars_int (SignedInt 32)" and n = 0
        and T = "SignedInt 32" and i = "- 1" and s = "''dflt''" and x = "()"]
    by simp
  show ?thesis
    by (rule exI [where x = d]) (rule conjI [OF built reads])
qed

subsection \<open>Boolean and text reads\<close>

text \<open>
  C3. A boolean read that finds a raw value is true exactly when the raw text is one
  of \<open>true\<close>, \<open>1\<close>, \<open>on\<close>, \<open>yes\<close>, compared character by character; any other
  text, \<open>True\<close> included, gives false whatever the default is.
\<close>

theorem read_bool_hit:
  assumes "find_value data section key = Some raw"
  shows "read_bool data section key defaultValue t
           = (raw \<in> {''true'', ''1'', ''on'', ''yes''})"
  using assms by (simp add: read_bool_def)

theorem read_bool_hit_witness:
  "\<exists>d. K4IniReader (2 ^ 60) (Some ''k=True\<newline>j=yes\<newline>v-sync = off ; note'') 32 8 = Inr d
     \<and> read_bool d [] ''k'' True False = False
     \<and> read_bool d [] ''j'' False False = True
     \<and> read_bool d [] ''v-sync'' True False = False"
proof -
  obtain d where built:
    "K4IniReader (2 ^ 60) (Some ''k=True\<newline>j=yes\<newline>v-sync = off ; note'') 32 8 = Inr d"
    using K4IniReader_succeeds
      [of 32 "2 ^ 60" 8 "Some ''k=True\<newline>j=yes\<newline>v-sync = off ; note''"]
    by auto
  have k: "find_value d [] ''k'' = Some ''True''"
    unfolding find_value_K4IniReader [OF built] by code_simp
  have j: "find_value d [] ''j'' = Some ''yes''"
    unfolding find_value_K4IniReader [OF built] by code_simp
  have v: "find_value d [] ''v-sync'' = Some ''off''"
    unfolding find_value_K4IniReader [OF built] by code_simp
  have reads: "read_bool d [] ''k'' True False = False
     \<and> read_bool d [] ''j'' False False = True
     \<and> read_bool d [] ''v-sync'' True False = False"
    using read_bool_hit [OF k, of True False] read_bool_hit [OF j, of False False]
      read_bool_hit [OF v, of True False]
    by simp
  show ?thesis
    by (rule exI [where x = d]) (rule conjI [OF built reads])
qed

lemma tolower_id: "\<not> list_ex isupper xs \<Longrightarrow> map tolower xs = xs"
  by (induction xs) (simp_all add: tolower_def)

text \<open>
  C8. A text read that finds a raw value returns, with case folding requested, the
  raw value with every character lowercased (the test for an uppercase character
  changes nothing that can be seen), and without it the raw value as stored.
\<close>

theorem read_string_hit:
  assumes "find_value data section key = Some raw"
  shows "read_string data section key d True = map tolower raw
       \<and> read_string data section key d False = raw"
  using assms by (simp add: read_string_def tolower_id)

theorem read_string_hit_witness:
  "\<exists>d. K4IniReader (2 ^ 60) (Some ''k = HELLO'') 32 8 = Inr d
     \<and> read_string d [] ''k'' ''d'' True = ''hello''
     \<and> read_string d [] ''k'' ''d'' False = ''HELLO''"
proof -
  obtain d where built: "K4IniReader (2 ^ 60) (Some ''k = HELLO'') 32 8 = Inr d"
    using K4IniReader_succeeds [of 32 "2 ^ 60" 8 "Some ''k = HELLO''"] by auto
  have k: "find_value d [] ''k'' = Some ''HELLO''"
    unfolding find_value_K4IniReader [OF built] by code_simp
  have low: "map tolower ''HELLO'' = ''hello''" by code_simp
  have reads: "read_string d [] ''k'' ''d'' True = ''hello''
     \<and> read_string d [] ''k'' ''d'' False = ''HELLO''"
    using read_string_hit [OF k, of "''d''"] low by simp
  show ?thesis
    by (rule exI [where x = d]) (rule conjI [OF built reads])
qed

subsection \<open>Construction from a source that gives nothing\<close>

text \<open>
  A file that opens and delivers no character still reaches
  \<^verbatim>\<open>data.reserve(nSections)\<close>: with a section hint beyond what the allocator serves,
  here \<open>2 ^ 62\<close> buckets against an allocator limit of \<open>2 ^ 60\<close>, the constructor
  throws and no document is built.
\<close>

theorem empty_source_oversized_hint_throws:
  "K4IniReader (2 ^ 60) (Some []) (2 ^ 62) 8 = Inl alloc_failure"
  by (simp add: K4IniReader_def reserve_def)

text \<open>
  C4, as the code has it. A file that cannot be opened gives, for any hints, a document
  with no section, hence no key. A file that opens and delivers no character (it is
  empty or cannot be read) gives such a document when the section hint is a request
  the allocator can serve, and otherwise the exception of \<^verbatim>\<open>reserve\<close> leaves the
  constructor.
\<close>

theorem source_without_content_empty:
  "K4IniReader max_buckets None nSections nKeys = Inr empty_map
   \<and> entries (empty_map :: ini_data) = Map.empty
   \<and> (nSections \<le> max_buckets \<longrightarrow>
        (\<exists>d. K4IniReader max_buckets (Some []) nSections nKeys = Inr d
           \<and> entries d = Map.empty \<and> find_value d s k = None))
   \<and> (max_buckets < nSections \<longrightarrow>
        K4IniReader max_buckets (Some []) nSections nKeys = Inl alloc_failure)"
  by (simp add: K4IniReader_def empty_map_def getlines_def reserve_def find_value_def)

theorem source_without_content_empty_witness:
  "K4IniReader (2 ^ 60) None (2 ^ 62) 8 = Inr empty_map
   \<and> (\<exists>d. K4IniReader (2 ^ 60) (Some []) 32 8 = Inr d
         \<and> entries d = Map.empty \<and> find_value d ''A'' ''k'' = None)"
  using source_without_content_empty [where max_buckets = "2 ^ 60" and nSections = "2 ^ 62"
      and nKeys = 8 and s = "''A''" and k = "''k''"]
    source_without_content_empty [where max_buckets = "2 ^ 60" and nSections = 32
      and nKeys = 8 and s = "''A''" and k = "''k''"]
  by simp

subsection \<open>Numeric reads\<close>

lemma digits_value_snoc:
  "digits_value (ds @ [ch]) = 10 * digits_value ds + (int (of_char ch) - 48)"
  by (simp add: digits_value_def)

lemma takeWhile_token:
  "list_all P xs \<Longrightarrow> rest = [] \<or> \<not> P (hd rest) \<Longrightarrow> takeWhile P (xs @ rest) = xs"
  by (induction xs) (auto simp: takeWhile_eq_Nil_iff neq_Nil_conv)

lemma minus_not_digit: "\<not> isdigit (CHR ''-'')"
  by (simp add: isdigit_def)

text \<open>
  On a text that starts with a numeric token which is not followed by a further digit,
  the conversion yields the token's value when the type can hold it and
  \<^verbatim>\<open>result_out_of_range\<close> otherwise.
\<close>

lemma from_chars_int_token:
  assumes "numeric_token T tok" and "rest = [] \<or> \<not> isdigit (hd rest)"
  shows "from_chars_int T (tok @ rest) =
           (if representable T (token_value tok) then Inr (token_value tok)
            else Inl result_out_of_range)"
proof (cases "take 1 tok = ''-''")
  case True
  then obtain ds where tok: "tok = CHR ''-'' # ds"
    by (cases tok) auto
  with assms(1) have ds: "accepts_minus T" "ds \<noteq> []" "list_all isdigit ds"
    by (simp_all add: numeric_token_def)
  have "takeWhile isdigit (ds @ rest) = ds"
    using ds(3) assms(2) by (rule takeWhile_token)
  then show ?thesis
    using ds by (simp add: from_chars_int_def tok token_value_def)
next
  case False
  with assms(1) have ds: "tok \<noteq> []" "list_all isdigit tok"
    by (simp_all add: numeric_token_def)
  then obtain c cs where tok: "tok = c # cs" "isdigit c"
    by (cases tok) auto
  then have "c \<noteq> CHR ''-''"
    using minus_not_digit by auto
  moreover have "takeWhile isdigit (tok @ rest) = tok"
    using ds(2) assms(2) by (rule takeWhile_token)
  ultimately show ?thesis
    using ds False tok by (simp add: from_chars_int_def token_value_def)
qed

text \<open>When no prefix of the text is a numeric token, nothing matches the pattern.\<close>

lemma from_chars_int_no_token:
  assumes "\<forall>tok rest. raw = tok @ rest \<longrightarrow> \<not> numeric_token T tok"
  shows "from_chars_int T raw = Inl invalid_argument"
proof (rule ccontr)
  assume contra: "from_chars_int T raw \<noteq> Inl invalid_argument"
  define neg where "neg = (accepts_minus T \<and> take 1 raw = ''-'')"
  define body where "body = (if neg then drop 1 raw else raw)"
  define ds where "ds = takeWhile isdigit body"
  have nonempty: "ds \<noteq> []"
    using contra
    by (auto simp: from_chars_int_def Let_def ds_def body_def neg_def split: if_splits)
  have body: "body = ds @ dropWhile isdigit body"
    by (simp add: ds_def)
  have all: "list_all isdigit ds"
    by (simp add: ds_def list_all_iff) (meson set_takeWhileD)
  show False
  proof (cases neg)
    case True
    then have "raw = (CHR ''-'' # ds) @ dropWhile isdigit body"
      using body by (cases raw) (auto simp: neg_def body_def)
    moreover have "numeric_token T (CHR ''-'' # ds)"
      using True nonempty all by (simp add: numeric_token_def neg_def)
    ultimately show False using assms by blast
  next
    case False
    then have raw: "raw = ds @ dropWhile isdigit body"
      using body by (simp add: body_def)
    from nonempty all obtain c cs where "ds = c # cs" "isdigit c"
      by (cases ds) auto
    then have "take 1 ds \<noteq> ''-''"
      using minus_not_digit by auto
    then have "numeric_token T ds"
      using nonempty all by (simp add: numeric_token_def)
    with raw assms show False by blast
  qed
qed

text \<open>The longest match is a prefix that matches, and no longer prefix does.\<close>

lemma longest_match_Some:
  "longest_match P s n = Some tok \<Longrightarrow>
     \<exists>m\<le>n. tok = take m s \<and> P (take m s) \<and> (\<forall>j. m < j \<and> j \<le> n \<longrightarrow> \<not> P (take j s))"
proof (induction n)
  case 0
  then show ?case by (auto split: if_splits)
next
  case (Suc n)
  show ?case
  proof (cases "P (take (Suc n) s)")
    case True
    with Suc.prems have "tok = take (Suc n) s" by simp
    with True show ?thesis by (intro exI [of _ "Suc n"]) auto
  next
    case False
    with Suc.prems have "longest_match P s n = Some tok" by simp
    from Suc.IH [OF this] obtain m where
      m: "m \<le> n" "tok = take m s" "P (take m s)" "\<forall>j. m < j \<and> j \<le> n \<longrightarrow> \<not> P (take j s)"
      by blast
    have "\<forall>j. m < j \<and> j \<le> Suc n \<longrightarrow> \<not> P (take j s)"
      using m(4) False by (auto simp: le_Suc_eq)
    with m show ?thesis by (intro exI [of _ m]) simp
  qed
qed

lemma longest_match_None:
  "longest_match P s n = None \<Longrightarrow> j \<le> n \<Longrightarrow> \<not> P (take j s)"
  by (induction n) (auto simp: le_Suc_eq split: if_splits)

lemma longest_match_longest:
  assumes "raw = tok @ rest" and "P tok"
    and "\<forall>tok' rest'. raw = tok' @ rest' \<and> P tok' \<longrightarrow> length tok' \<le> length tok"
  shows "longest_match P raw (length raw) = Some tok"
proof (cases "longest_match P raw (length raw)")
  case None
  from longest_match_None [OF None, of "length tok"] assms(1,2) show ?thesis by simp
next
  case (Some found)
  from longest_match_Some [OF Some] obtain m where
    m: "m \<le> length raw" "found = take m raw" "P (take m raw)"
       "\<forall>j. m < j \<and> j \<le> length raw \<longrightarrow> \<not> P (take j raw)"
    by blast
  have tok: "tok = take (length tok) raw" "length tok \<le> length raw"
    using assms(1) by simp_all
  have "\<not> m < length tok"
    using m(4) tok assms(2) by auto
  moreover have "raw = take m raw @ drop m raw" by simp
  with m(3) assms(3) have "length (take m raw) \<le> length tok" by blast
  with m(1) have "m \<le> length tok" by simp
  ultimately have "m = length tok" by simp
  with m(2) tok(1) Some show ?thesis by simp
qed

lemma longest_match_no_prefix:
  assumes "\<forall>tok rest. raw = tok @ rest \<longrightarrow> \<not> P tok"
  shows "longest_match P raw (length raw) = None"
proof (cases "longest_match P raw (length raw)")
  case None
  then show ?thesis .
next
  case (Some found)
  from longest_match_Some [OF Some] obtain m where "P (take m raw)" by blast
  moreover have "raw = take m raw @ drop m raw" by simp
  ultimately show ?thesis using assms by blast
qed

lemma longest_match_maximal:
  assumes "longest_match P raw (length raw) = Some tok"
  shows "\<exists>rest. raw = tok @ rest" and "P tok"
    and "\<forall>tok' rest'. raw = tok' @ rest' \<and> P tok' \<longrightarrow> length tok' \<le> length tok"
proof -
  from longest_match_Some [OF assms] obtain m where
    m: "m \<le> length raw" "tok = take m raw" "P (take m raw)"
       "\<forall>j. m < j \<and> j \<le> length raw \<longrightarrow> \<not> P (take j raw)"
    by blast
  have "raw = take m raw @ drop m raw" by simp
  with m(2) show "\<exists>rest. raw = tok @ rest" by blast
  from m(2,3) show "P tok" by simp
  show "\<forall>tok' rest'. raw = tok' @ rest' \<and> P tok' \<longrightarrow> length tok' \<le> length tok"
  proof (intro allI impI)
    fix tok' rest' assume a: "raw = tok' @ rest' \<and> P tok'"
    then have "tok' = take (length tok') raw" "length tok' \<le> length raw" by simp_all
    with a m(4) have "\<not> m < length tok'" by metis
    with m(1,2) show "length tok' \<le> length tok" by simp
  qed
qed

lemma longest_match_None_prefix:
  assumes "longest_match P raw (length raw) = None" and "raw = tok @ rest"
  shows "\<not> P tok"
proof -
  have "tok = take (length tok) raw" "length tok \<le> length raw"
    using assms(2) by simp_all
  with longest_match_None [OF assms(1), of "length tok"] show ?thesis by simp
qed

text \<open>
  An integer text too large for the type: \<open>3000000000\<close> is a numeric token, its value
  is beyond the 32-bit signed range, and the read returns the default, not the value.
\<close>

theorem read_int_token_beyond_range:
  "find_value (projr (K4IniReader (2 ^ 60) (Some ''k=3000000000'') 32 8)) [] ''k''
     = Some ''3000000000''
   \<and> numeric_token (SignedInt 32) ''3000000000''
   \<and> token_value ''3000000000'' = 3000000000
   \<and> read_int (SignedInt 32) (projr (K4IniReader (2 ^ 60) (Some ''k=3000000000'') 32 8))
         [] ''k'' (- 1) False = - 1"
proof -
  obtain d where built: "K4IniReader (2 ^ 60) (Some ''k=3000000000'') 32 8 = Inr d"
    using K4IniReader_succeeds [of 32 "2 ^ 60" 8 "Some ''k=3000000000''"] by auto
  have k: "find_value d [] ''k'' = Some ''3000000000''"
    unfolding find_value_K4IniReader [OF built] by code_simp
  have tok: "numeric_token (SignedInt 32) ''3000000000''" by code_simp
  have val: "token_value ''3000000000'' = 3000000000" by code_simp
  have conv: "from_chars_int (SignedInt 32) ''3000000000'' = Inl result_out_of_range"
    by code_simp
  have "read_int (SignedInt 32) d [] ''k'' (- 1) False = - 1"
    by (simp add: read_int_def read_arithmetic_def k conv)
  with k tok val show ?thesis
    unfolding built by simp
qed

text \<open>
  C2, as the code has it. A numeric read that finds a raw value. When the raw text
  starts with a numeric token of the requested type (the longest one) whose value the
  type can represent, the read returns the token's value, whatever follows the token;
  when the type cannot represent the value of that token, the read returns the
  default; and when no prefix of the raw text is a numeric token, the read returns the
  default. For an integer type the token is a minus sign (signed types) and digits, the
  longest one being the one no digit follows; for a floating-point type it is a text of
  the form \<open>float_token\<close>, the longest prefix of that form.
\<close>

theorem read_numeric_prefix:
  assumes "find_value data section key = Some raw"
  shows "(\<forall>tok rest. raw = tok @ rest \<and> numeric_token T tok
              \<and> (rest = [] \<or> \<not> isdigit (hd rest)) \<and> representable T (token_value tok)
            \<longrightarrow> read_int T data section key d t = token_value tok)
       \<and> (\<forall>tok rest. raw = tok @ rest \<and> numeric_token T tok
              \<and> (rest = [] \<or> \<not> isdigit (hd rest)) \<and> \<not> representable T (token_value tok)
            \<longrightarrow> read_int T data section key d t = d)
       \<and> ((\<forall>tok rest. raw = tok @ rest \<longrightarrow> \<not> numeric_token T tok)
            \<longrightarrow> read_int T data section key d t = d)
       \<and> (\<forall>tok rest v. raw = tok @ rest \<and> float_token tok
              \<and> (\<forall>tok' rest'. raw = tok' @ rest' \<and> float_token tok'
                    \<longrightarrow> length tok' \<le> length tok)
              \<and> float_value F tok = Some v
            \<longrightarrow> read_float F data section key x t = v)
       \<and> (\<forall>tok rest. raw = tok @ rest \<and> float_token tok
              \<and> (\<forall>tok' rest'. raw = tok' @ rest' \<and> float_token tok'
                    \<longrightarrow> length tok' \<le> length tok)
              \<and> float_value F tok = None
            \<longrightarrow> read_float F data section key x t = x)
       \<and> ((\<forall>tok rest. raw = tok @ rest \<longrightarrow> \<not> float_token tok)
            \<longrightarrow> read_float F data section key x t = x)"
proof (intro conjI allI impI)
  fix tok rest
  assume "raw = tok @ rest \<and> numeric_token T tok
            \<and> (rest = [] \<or> \<not> isdigit (hd rest)) \<and> representable T (token_value tok)"
  then have "from_chars_int T raw = Inr (token_value tok)"
    by (simp add: from_chars_int_token)
  with assms show "read_int T data section key d t = token_value tok"
    by (simp add: read_int_def read_arithmetic_def)
next
  fix tok rest
  assume "raw = tok @ rest \<and> numeric_token T tok
            \<and> (rest = [] \<or> \<not> isdigit (hd rest)) \<and> \<not> representable T (token_value tok)"
  then have "from_chars_int T raw = Inl result_out_of_range"
    by (simp add: from_chars_int_token)
  with assms show "read_int T data section key d t = d"
    by (simp add: read_int_def read_arithmetic_def)
next
  assume "\<forall>tok rest. raw = tok @ rest \<longrightarrow> \<not> numeric_token T tok"
  then have "from_chars_int T raw = Inl invalid_argument"
    by (rule from_chars_int_no_token)
  with assms show "read_int T data section key d t = d"
    by (simp add: read_int_def read_arithmetic_def)
next
  fix tok rest v
  assume a: "raw = tok @ rest \<and> float_token tok
      \<and> (\<forall>tok' rest'. raw = tok' @ rest' \<and> float_token tok' \<longrightarrow> length tok' \<le> length tok)
      \<and> float_value F tok = Some v"
  then have "longest_match float_token raw (length raw) = Some tok"
    by (intro longest_match_longest [of raw tok rest]) simp_all
  with a have "from_chars_float F raw = Inr v"
    by (simp add: from_chars_float_def)
  with assms show "read_float F data section key x t = v"
    by (simp add: read_float_def read_arithmetic_def)
next
  fix tok rest
  assume a: "raw = tok @ rest \<and> float_token tok
      \<and> (\<forall>tok' rest'. raw = tok' @ rest' \<and> float_token tok' \<longrightarrow> length tok' \<le> length tok)
      \<and> float_value F tok = None"
  then have "longest_match float_token raw (length raw) = Some tok"
    by (intro longest_match_longest [of raw tok rest]) simp_all
  with a have "from_chars_float F raw = Inl result_out_of_range"
    by (simp add: from_chars_float_def)
  with assms show "read_float F data section key x t = x"
    by (simp add: read_float_def read_arithmetic_def)
next
  assume "\<forall>tok rest. raw = tok @ rest \<longrightarrow> \<not> float_token tok"
  then have "longest_match float_token raw (length raw) = None"
    by (rule longest_match_no_prefix)
  then have "from_chars_float F raw = Inl invalid_argument"
    by (simp add: from_chars_float_def)
  with assms show "read_float F data section key x t = x"
    by (simp add: read_float_def read_arithmetic_def)
qed

theorem read_numeric_prefix_witness:
  "\<exists>d. K4IniReader (2 ^ 60)
          (Some ''k=42xyz\<newline>j=banana\<newline>n = 123abc\<newline>f = 1.5e3xyz\<newline>g=1e7'') 32 8 = Inr d
     \<and> read_int (SignedInt 32) d [] ''k'' (- 1) False = 42
     \<and> read_int (SignedInt 32) d [] ''n'' (- 1) False = 123
     \<and> read_int (SignedInt 32) d [] ''j'' (- 1) False = - 1
     \<and> read_float (exact_upto 1000000) d [] ''f'' (Finite 0) False = Finite 1500
     \<and> read_float (exact_upto 1000000) d [] ''g'' (Finite 0) False = Finite 0
     \<and> read_float (exact_upto 1000000) d [] ''j'' (Finite 0) False = Finite 0"
proof -
  let ?T = "SignedInt 32"
  let ?F = "exact_upto 1000000"
  obtain d where built:
    "K4IniReader (2 ^ 60)
       (Some ''k=42xyz\<newline>j=banana\<newline>n = 123abc\<newline>f = 1.5e3xyz\<newline>g=1e7'') 32 8 = Inr d"
    using K4IniReader_succeeds
      [of 32 "2 ^ 60" 8 "Some ''k=42xyz\<newline>j=banana\<newline>n = 123abc\<newline>f = 1.5e3xyz\<newline>g=1e7''"]
    by auto
  have k: "find_value d [] ''k'' = Some ''42xyz''"
    unfolding find_value_K4IniReader [OF built] by code_simp
  have n: "find_value d [] ''n'' = Some ''123abc''"
    unfolding find_value_K4IniReader [OF built] by code_simp
  have j: "find_value d [] ''j'' = Some ''banana''"
    unfolding find_value_K4IniReader [OF built] by code_simp
  have f: "find_value d [] ''f'' = Some ''1.5e3xyz''"
    unfolding find_value_K4IniReader [OF built] by code_simp
  have tk: "''42xyz'' = ''42'' @ ''xyz'' \<and> numeric_token ?T ''42''
      \<and> (''xyz'' = [] \<or> \<not> isdigit (hd ''xyz'')) \<and> representable ?T (token_value ''42'')"
    by code_simp
  have vk: "token_value ''42'' = 42" by code_simp
  have tn: "''123abc'' = ''123'' @ ''abc'' \<and> numeric_token ?T ''123''
      \<and> (''abc'' = [] \<or> \<not> isdigit (hd ''abc'')) \<and> representable ?T (token_value ''123'')"
    by code_simp
  have vn: "token_value ''123'' = 123" by code_simp
  have none: "\<forall>tok rest. ''banana'' = tok @ rest \<longrightarrow> \<not> numeric_token ?T tok"
  proof (intro allI impI)
    fix tok rest assume "''banana'' = tok @ rest"
    then have "tok = [] \<or> take 1 tok = ''b''"
      by (cases tok) auto
    then show "\<not> numeric_token ?T tok"
      by (auto simp: numeric_token_def isdigit_def neq_Nil_conv)
  qed
  have lm: "longest_match float_token ''1.5e3xyz'' (length ''1.5e3xyz'') = Some ''1.5e3''"
    by code_simp
  have fv: "float_value ?F ''1.5e3'' = Some (Finite 1500)" by code_simp
  have tf: "''1.5e3xyz'' = ''1.5e3'' @ ''xyz'' \<and> float_token ''1.5e3''
      \<and> (\<forall>tok' rest'. ''1.5e3xyz'' = tok' @ rest' \<and> float_token tok'
            \<longrightarrow> length tok' \<le> length ''1.5e3'')
      \<and> float_value ?F ''1.5e3'' = Some (Finite 1500)"
    using longest_match_maximal(2,3) [OF lm] fv by simp
  have g: "find_value d [] ''g'' = Some ''1e7''"
    unfolding find_value_K4IniReader [OF built] by code_simp
  have lmg: "longest_match float_token ''1e7'' (length ''1e7'') = Some ''1e7''"
    by code_simp
  have gv: "float_value ?F ''1e7'' = None" by code_simp
  have tg: "''1e7'' = ''1e7'' @ [] \<and> float_token ''1e7''
      \<and> (\<forall>tok' rest'. ''1e7'' = tok' @ rest' \<and> float_token tok'
            \<longrightarrow> length tok' \<le> length ''1e7'')
      \<and> float_value ?F ''1e7'' = None"
    using longest_match_maximal(2,3) [OF lmg] gv by simp
  have lmn: "longest_match float_token ''banana'' (length ''banana'') = None"
    by code_simp
  have nonef: "\<forall>tok rest. ''banana'' = tok @ rest \<longrightarrow> \<not> float_token tok"
    using longest_match_None_prefix [OF lmn] by blast
  have "read_int ?T d [] ''k'' (- 1) False = token_value ''42''"
    by (rule read_numeric_prefix [OF k, THEN conjunct1, rule_format, OF tk])
  moreover have "read_int ?T d [] ''n'' (- 1) False = token_value ''123''"
    by (rule read_numeric_prefix [OF n, THEN conjunct1, rule_format, OF tn])
  moreover have "read_int ?T d [] ''j'' (- 1) False = - 1"
    by (rule read_numeric_prefix [OF j, THEN conjunct2, THEN conjunct2, THEN conjunct1,
          rule_format, OF none [rule_format]])
  moreover have "read_float ?F d [] ''f'' (Finite 0) False = Finite 1500"
    by (rule read_numeric_prefix [OF f, THEN conjunct2, THEN conjunct2, THEN conjunct2,
          THEN conjunct1, rule_format, OF tf])
  moreover have "read_float ?F d [] ''g'' (Finite 0) False = Finite 0"
    by (rule read_numeric_prefix [OF g, THEN conjunct2, THEN conjunct2, THEN conjunct2,
          THEN conjunct2, THEN conjunct1, rule_format, OF tg])
  moreover have "read_float ?F d [] ''j'' (Finite 0) False = Finite 0"
    by (rule read_numeric_prefix [OF j, THEN conjunct2, THEN conjunct2, THEN conjunct2,
          THEN conjunct2, THEN conjunct2, rule_format, OF nonef [rule_format]])
  ultimately have reads: "read_int (SignedInt 32) d [] ''k'' (- 1) False = 42
     \<and> read_int (SignedInt 32) d [] ''n'' (- 1) False = 123
     \<and> read_int (SignedInt 32) d [] ''j'' (- 1) False = - 1
     \<and> read_float (exact_upto 1000000) d [] ''f'' (Finite 0) False = Finite 1500
     \<and> read_float (exact_upto 1000000) d [] ''g'' (Finite 0) False = Finite 0
     \<and> read_float (exact_upto 1000000) d [] ''j'' (Finite 0) False = Finite 0"
    by (simp add: vk vn)
  show ?thesis
    by (rule exI [where x = d]) (rule conjI [OF built reads])
qed

text \<open>
  C10. An integer read that finds a raw value whose leading numeric token is outside
  the range of the requested type returns the default: the conversion reports
  \<^verbatim>\<open>result_out_of_range\<close> and leaves the output, initialised to the default, as
  it was.
\<close>

theorem read_int_out_of_range:
  assumes "find_value data section key = Some (tok @ rest)"
    and "numeric_token T tok"
    and "rest = [] \<or> \<not> isdigit (hd rest)"
    and "\<not> representable T (token_value tok)"
  shows "read_int T data section key d t = d"
proof -
  have "from_chars_int T (tok @ rest) = Inl result_out_of_range"
    using assms(2-4) by (simp add: from_chars_int_token)
  with assms(1) show ?thesis
    by (simp add: read_int_def read_arithmetic_def)
qed

theorem read_int_out_of_range_witness:
  "\<exists>d. K4IniReader (2 ^ 60) (Some ''k=99999999999999999999'') 32 8 = Inr d
     \<and> read_int (SignedInt 32) d [] ''k'' 7 False = 7
     \<and> read_int (UnsignedInt 8) d [] ''k'' 7 False = 7"
proof -
  obtain d where built: "K4IniReader (2 ^ 60) (Some ''k=99999999999999999999'') 32 8 = Inr d"
    using K4IniReader_succeeds [of 32 "2 ^ 60" 8 "Some ''k=99999999999999999999''"] by auto
  have k: "find_value d [] ''k'' = Some (''99999999999999999999'' @ [])"
    unfolding find_value_K4IniReader [OF built] by code_simp
  have tok: "numeric_token (SignedInt 32) ''99999999999999999999''"
     "numeric_token (UnsignedInt 8) ''99999999999999999999''" by code_simp+
  have big: "\<not> representable (SignedInt 32) (token_value ''99999999999999999999'')"
    "\<not> representable (UnsignedInt 8) (token_value ''99999999999999999999'')" by code_simp+
  have reads: "read_int (SignedInt 32) d [] ''k'' 7 False = 7
     \<and> read_int (UnsignedInt 8) d [] ''k'' 7 False = 7"
    using read_int_out_of_range [OF k tok(1) _ big(1), of 7 False]
      read_int_out_of_range [OF k tok(2) _ big(2), of 7 False]
    by simp
  show ?thesis
    by (rule exI [where x = d]) (rule conjI [OF built reads])
qed

subsection \<open>Comment stripping\<close>

lemma index_where_Some:
  "index_where P xs i0 = Some r \<Longrightarrow>
     \<exists>j. r = i0 + j \<and> j < length xs \<and> P (xs ! j) \<and> (\<forall>m<j. \<not> P (xs ! m))"
proof (induction xs arbitrary: i0 r)
  case Nil
  then show ?case by simp
next
  case (Cons x xs)
  show ?case
  proof (cases "P x")
    case True
    with Cons.prems have "r = i0" by simp
    with True show ?thesis by (intro exI [of _ 0]) simp
  next
    case False
    with Cons.prems have "index_where P xs (Suc i0) = Some r" by simp
    from Cons.IH [OF this] obtain j where
      j: "r = Suc i0 + j" "j < length xs" "P (xs ! j)" "\<forall>m<j. \<not> P (xs ! m)"
      by blast
    have "\<forall>m<Suc j. \<not> P ((x # xs) ! m)"
      using False j(4) by (auto simp: less_Suc_eq_0_disj)
    with j show ?thesis by (intro exI [of _ "Suc j"]) simp
  qed
qed

lemma index_where_None:
  "index_where P xs i0 = None \<Longrightarrow> \<forall>j<length xs. \<not> P (xs ! j)"
  by (induction xs arbitrary: i0) (auto simp: less_Suc_eq_0_disj split: if_splits)

lemma find_sub_Some:
  "find_sub xs pat i0 = Some r \<Longrightarrow>
     \<exists>j. r = i0 + j \<and> take (length pat) (drop j xs) = pat
        \<and> (\<forall>m<j. take (length pat) (drop m xs) \<noteq> pat)"
proof (induction xs arbitrary: i0 r)
  case Nil
  then show ?case by (intro exI [of _ 0]) (simp split: if_splits)
next
  case (Cons x xs)
  show ?case
  proof (cases "take (length pat) (x # xs) = pat")
    case True
    with Cons.prems have "r = i0" by simp
    with True show ?thesis by (intro exI [of _ 0]) simp
  next
    case False
    with Cons.prems have "find_sub xs pat (Suc i0) = Some r" by simp
    from Cons.IH [OF this] obtain j where
      j: "r = Suc i0 + j" "take (length pat) (drop j xs) = pat"
         "\<forall>m<j. take (length pat) (drop m xs) \<noteq> pat"
      by blast
    have "\<forall>m<Suc j. take (length pat) (drop m (x # xs)) \<noteq> pat"
      using False j(3) by (auto simp: less_Suc_eq_0_disj)
    with j show ?thesis by (intro exI [of _ "Suc j"]) simp
  qed
qed

lemma find_sub_None:
  "find_sub xs pat i0 = None \<Longrightarrow> take (length pat) (drop j xs) \<noteq> pat"
proof (induction xs arbitrary: i0 j)
  case Nil
  then show ?case by (auto split: if_splits)
next
  case (Cons x xs)
  then show ?case by (cases j) (auto split: if_splits)
qed

lemma take2_drop_iff:
  "take 2 (drop i s) = [a, b] \<longleftrightarrow> Suc i < length s \<and> s ! i = a \<and> s ! Suc i = b"
proof (induction s arbitrary: i)
  case Nil
  then show ?case by simp
next
  case (Cons x xs)
  show ?case
  proof (cases i)
    case 0
    then show ?thesis by (cases xs) (auto simp: numeral_2_eq_2)
  next
    case (Suc n)
    then show ?thesis using Cons.IH [of n] by simp
  qed
qed

lemma double_slash_at_iff:
  "double_slash_at s i \<longleftrightarrow> take (length ''//'') (drop i s) = ''//''"
  using take2_drop_iff [of i s "CHR ''/''" "CHR ''/''"]
  by (simp add: double_slash_at_def numeral_2_eq_2)

lemma find_first_of_Some:
  assumes "find_first_of s '';#'' = Some p"
  shows "semi_or_hash_at s p" and "(LEAST i. semi_or_hash_at s i) = p"
proof -
  from index_where_Some [OF assms [unfolded find_first_of_def]]
  have p: "p < length s" "s ! p \<in> set '';#''" "\<forall>m<p. s ! m \<notin> set '';#''"
    by auto
  then show at: "semi_or_hash_at s p"
    by (auto simp: semi_or_hash_at_def)
  have "p \<le> y" if "semi_or_hash_at s y" for y
  proof (rule ccontr)
    assume "\<not> p \<le> y"
    with p(3) have "s ! y \<notin> set '';#''" by simp
    with that show False by (auto simp: semi_or_hash_at_def)
  qed
  with at show "(LEAST i. semi_or_hash_at s i) = p"
    by (rule Least_equality)
qed

lemma find_first_of_None:
  assumes "find_first_of s '';#'' = None"
  shows "(\<exists>i. semi_or_hash_at s i) = False"
  using index_where_None [OF assms [unfolded find_first_of_def]]
  by (auto simp: semi_or_hash_at_def)

lemma find_str_Some:
  assumes "find_str s ''//'' = Some q"
  shows "double_slash_at s q" and "(LEAST i. double_slash_at s i) = q"
proof -
  from find_sub_Some [OF assms [unfolded find_str_def]]
  have q: "double_slash_at s q" "\<forall>m<q. \<not> double_slash_at s m"
    by (auto simp: double_slash_at_iff)
  then show "double_slash_at s q" by simp
  have "q \<le> y" if "double_slash_at s y" for y
    using q(2) that by (meson not_le)
  with q(1) show "(LEAST i. double_slash_at s i) = q"
    by (rule Least_equality)
qed

lemma find_str_None:
  assumes "find_str s ''//'' = None"
  shows "(\<exists>i. double_slash_at s i) = False"
  using find_sub_None [OF assms [unfolded find_str_def]]
  by (simp add: double_slash_at_iff)

text \<open>
  C6. Comment stripping cuts the line at the smaller of the first position of \<open>;\<close>
  or \<open>#\<close> and the first position where \<open>//\<close> starts, each searched on its own; with
  one family absent it cuts at the first position of the other, and with both absent
  the line is unchanged.
\<close>

theorem removeInlineComment_earliest:
  "removeInlineComment s =
     (if \<exists>i. semi_or_hash_at s i then
        (if \<exists>i. double_slash_at s i
         then take (min (LEAST i. semi_or_hash_at s i) (LEAST i. double_slash_at s i)) s
         else take (LEAST i. semi_or_hash_at s i) s)
      else if \<exists>i. double_slash_at s i then take (LEAST i. double_slash_at s i) s
      else s)"
proof (cases "find_first_of s '';#''")
  case None
  note sh = find_first_of_None [OF None]
  show ?thesis
  proof (cases "find_str s ''//''")
    case None': None
    note ds = find_str_None [OF None']
    show ?thesis
      by (simp add: removeInlineComment_def None None' sh ds)
  next
    case (Some q)
    note ds = find_str_Some [OF Some]
    have "(\<exists>i. double_slash_at s i) = True" using ds(1) by blast
    then show ?thesis
      using ds(2) by (simp add: removeInlineComment_def None Some erase_def sh)
  qed
next
  case (Some p)
  note sh = find_first_of_Some [OF Some]
  have ex: "(\<exists>i. semi_or_hash_at s i) = True" using sh(1) by blast
  show ?thesis
  proof (cases "find_str s ''//''")
    case None
    note ds = find_str_None [OF None]
    show ?thesis
      using sh(2) by (simp add: removeInlineComment_def None Some erase_def ex ds)
  next
    case Some': (Some q)
    note ds = find_str_Some [OF Some']
    have "(\<exists>i. double_slash_at s i) = True" using ds(1) by blast
    then show ?thesis
      using ex sh(2) ds(2) by (simp add: removeInlineComment_def Some Some' erase_def)
  qed
qed

theorem removeInlineComment_earliest_witness:
  "removeInlineComment ''k = 5 // five ; x'' = ''k = 5 ''
   \<and> (LEAST i. double_slash_at ''k = 5 // five ; x'' i) = 6
   \<and> (LEAST i. semi_or_hash_at ''k = 5 // five ; x'' i) = 14
   \<and> removeInlineComment ''a#b//c'' = ''a''
   \<and> removeInlineComment ''plain / text'' = ''plain / text''"
proof -
  let ?s = "''k = 5 // five ; x''"
  have f1: "find_first_of ?s '';#'' = Some 14" by code_simp
  have f2: "find_str ?s ''//'' = Some 6" by code_simp
  note a = find_first_of_Some [OF f1] and b = find_str_Some [OF f2]
  have e: "(\<exists>i. semi_or_hash_at ?s i) = True" "(\<exists>i. double_slash_at ?s i) = True"
    using a(1) b(1) by blast+
  have 1: "removeInlineComment ?s = ''k = 5 ''"
    using removeInlineComment_earliest [of ?s] e a(2) b(2) by simp
  let ?u = "''a#b//c''"
  have g1: "find_first_of ?u '';#'' = Some 1" by code_simp
  have g2: "find_str ?u ''//'' = Some 3" by code_simp
  note c = find_first_of_Some [OF g1] and d = find_str_Some [OF g2]
  have e': "(\<exists>i. semi_or_hash_at ?u i) = True" "(\<exists>i. double_slash_at ?u i) = True"
    using c(1) d(1) by blast+
  have 2: "removeInlineComment ?u = ''a''"
    using removeInlineComment_earliest [of ?u] e' c(2) d(2) by simp
  let ?v = "''plain / text''"
  have h1: "find_first_of ?v '';#'' = None" by code_simp
  have h2: "find_str ?v ''//'' = None" by code_simp
  have 3: "removeInlineComment ?v = ?v"
    using removeInlineComment_earliest [of ?v]
    by (simp add: find_first_of_None [OF h1] find_str_None [OF h2])
  show ?thesis using 1 2 3 a(2) b(2) by simp
qed

subsection \<open>Section headers that are not closed\<close>

text \<open>
  C7. A line that, once its comment is stripped (the form in which header detection
  sees it), contains \<open>[\<close> and has no \<open>]\<close> at or after the first \<open>[\<close>, is
  discarded: the loop body returns the state as it was, so no section is created and
  the current section stays. Parsing any lines with such a line among them ends as
  parsing them without it does, from any state: in the same document and the same
  current section, or in the same exception; and the file with the line gives what the
  file without it gives.
\<close>

theorem unterminated_header_discarded:
  assumes "CHR ''['' \<in> set (removeInlineComment l)"
    and "CHR '']'' \<notin> set (dropWhile (\<lambda>c. c \<noteq> CHR ''['') (removeInlineComment l))"
  shows "process_line max_buckets nKeys l st = Inr st
       \<and> parse_lines max_buckets nKeys (pre @ l # post) st0
           = parse_lines max_buckets nKeys (pre @ post) st0
       \<and> ((\<forall>x\<in>set (pre @ l # post). CHR 0x0A \<notin> set x) \<longrightarrow>
            K4IniReader max_buckets (Some (join_lines (pre @ l # post))) nSections nKeys
              = K4IniReader max_buckets (Some (join_lines (pre @ post))) nSections nKeys)"
proof (intro conjI impI)
  show "process_line max_buckets nKeys l st = Inr st"
    using assms by (rule process_line_unterminated)
  have step: "process_line max_buckets nKeys l st' = Inr st'" for st'
    using assms by (rule process_line_unterminated)
  show eq: "parse_lines max_buckets nKeys (pre @ l # post) st0
      = parse_lines max_buckets nKeys (pre @ post) st0" for st0
    by (simp add: parse_lines_append step split: sum.splits)
  assume nl: "\<forall>x\<in>set (pre @ l # post). CHR 0x0A \<notin> set x"
  then have "getlines (join_lines (pre @ l # post)) = pre @ l # post"
    unfolding getlines_def by (rule getlines_join_lines)
  moreover from nl have "\<forall>x\<in>set (pre @ post). CHR 0x0A \<notin> set x" by simp
  then have "getlines (join_lines (pre @ post)) = pre @ post"
    unfolding getlines_def by (rule getlines_join_lines)
  ultimately show "K4IniReader max_buckets (Some (join_lines (pre @ l # post))) nSections nKeys
      = K4IniReader max_buckets (Some (join_lines (pre @ post))) nSections nKeys"
    by (simp add: K4IniReader_def eq split: sum.splits)
qed

theorem unterminated_header_discarded_witness:
  "process_line (2 ^ 60) 8 ''[unterminated'' (empty_map, ''A'') = Inr (empty_map, ''A'')
   \<and> parse_lines (2 ^ 60) 8 ([''[A]'', ''k=1''] @ ''[unterminated'' # [''j=2'']) (empty_map, [])
       = parse_lines (2 ^ 60) 8 ([''[A]'', ''k=1''] @ [''j=2'']) (empty_map, [])
   \<and> K4IniReader (2 ^ 60)
         (Some (join_lines ([''[A]'', ''k=1''] @ ''[unterminated'' # [''j=2'']))) 32 8
       = K4IniReader (2 ^ 60) (Some (join_lines ([''[A]'', ''k=1''] @ [''j=2'']))) 32 8
   \<and> (\<exists>d. K4IniReader (2 ^ 60) (Some ''[A]\<newline>k=1\<newline>[unterminated\<newline>j=2'') 32 8 = Inr d
          \<and> find_value d ''A'' ''j'' = Some ''2''
          \<and> find_value d ''unterminated'' ''j'' = None)"
proof -
  have h1: "CHR ''['' \<in> set (removeInlineComment ''[unterminated'')" by code_simp
  have h2: "CHR '']'' \<notin> set (dropWhile (\<lambda>c. c \<noteq> CHR ''['') (removeInlineComment ''[unterminated''))"
    by code_simp
  have h3: "\<forall>x\<in>set ([''[A]'', ''k=1''] @ ''[unterminated'' # [''j=2'']). CHR 0x0A \<notin> set x"
    by simp
  note inst = unterminated_header_discarded [OF h1 h2, where max_buckets = "2 ^ 60"
      and nKeys = 8 and st = "(empty_map, ''A'')" and pre = "[''[A]'', ''k=1'']"
      and post = "[''j=2'']" and ?st0.0 = "(empty_map, [])" and nSections = 32]
  obtain d where built:
    "K4IniReader (2 ^ 60) (Some ''[A]\<newline>k=1\<newline>[unterminated\<newline>j=2'') 32 8 = Inr d"
    using K4IniReader_succeeds
      [of 32 "2 ^ 60" 8 "Some ''[A]\<newline>k=1\<newline>[unterminated\<newline>j=2''"]
    by auto
  have a: "find_value d ''A'' ''j'' = Some ''2''"
    unfolding find_value_K4IniReader [OF built] by code_simp
  have b: "find_value d ''unterminated'' ''j'' = None"
    unfolding find_value_K4IniReader [OF built] by code_simp
  have ex: "\<exists>d. K4IniReader (2 ^ 60) (Some ''[A]\<newline>k=1\<newline>[unterminated\<newline>j=2'') 32 8 = Inr d
          \<and> find_value d ''A'' ''j'' = Some ''2''
          \<and> find_value d ''unterminated'' ''j'' = None"
    by (rule exI [where x = d]) (rule conjI [OF built conjI [OF a b]])
  from inst have c3: "K4IniReader (2 ^ 60)
         (Some (join_lines ([''[A]'', ''k=1''] @ ''[unterminated'' # [''j=2'']))) 32 8
       = K4IniReader (2 ^ 60) (Some (join_lines ([''[A]'', ''k=1''] @ [''j=2'']))) 32 8"
    using h3 by (elim conjE) (erule mp)
  from inst have c1: "process_line (2 ^ 60) 8 ''[unterminated'' (empty_map, ''A'')
      = Inr (empty_map, ''A'')" by (rule conjunct1)
  from inst have c2: "parse_lines (2 ^ 60) 8 ([''[A]'', ''k=1''] @ ''[unterminated'' # [''j=2''])
        (empty_map, [])
       = parse_lines (2 ^ 60) 8 ([''[A]'', ''k=1''] @ [''j=2'']) (empty_map, [])"
    by (rule conjunct2 [THEN conjunct1])
  show ?thesis
    by (rule conjI [OF c1 conjI [OF c2 conjI [OF c3 ex]]])
qed

subsection \<open>The values stored\<close>

text \<open>
  C5. In the document built from a file, the value stored under a section name and a
  key is the value of the last key-value line, in source order, that assigns the key
  while the section is current, and nothing is stored when there is no such line. So
  a key assigned again in a section takes the later value, and a header that names a
  section again reopens it with its keys kept.
\<close>

theorem last_assignment_wins:
  assumes "K4IniReader max_buckets (Some content) nSections nKeys = Inr data"
  shows "find_value data s k = last_assigned (assignments [] (getlines content)) s k"
  using assms by (rule find_value_K4IniReader)

theorem last_assignment_wins_witness:
  "(\<exists>d. K4IniReader (2 ^ 60) (Some ''[A]\<newline>k=1\<newline>[A]\<newline>j=2'') 32 8 = Inr d
       \<and> find_value d ''A'' ''k'' = Some ''1'' \<and> find_value d ''A'' ''j'' = Some ''2'')
   \<and> (\<exists>d. K4IniReader (2 ^ 60) (Some ''k=1\<newline>k=2'') 32 8 = Inr d
         \<and> find_value d [] ''k'' = Some ''2'')"
proof -
  obtain d where built: "K4IniReader (2 ^ 60) (Some ''[A]\<newline>k=1\<newline>[A]\<newline>j=2'') 32 8 = Inr d"
    using K4IniReader_succeeds [of 32 "2 ^ 60" 8 "Some ''[A]\<newline>k=1\<newline>[A]\<newline>j=2''"] by auto
  have a: "last_assigned (assignments [] (getlines ''[A]\<newline>k=1\<newline>[A]\<newline>j=2'')) ''A'' ''k'' = Some ''1''"
    by code_simp
  have b: "last_assigned (assignments [] (getlines ''[A]\<newline>k=1\<newline>[A]\<newline>j=2'')) ''A'' ''j'' = Some ''2''"
    by code_simp
  have ab: "find_value d ''A'' ''k'' = Some ''1'' \<and> find_value d ''A'' ''j'' = Some ''2''"
    using last_assignment_wins [OF built, of "''A''" "''k''"]
      last_assignment_wins [OF built, of "''A''" "''j''"]
    by (simp only: a b)
  obtain d' where built': "K4IniReader (2 ^ 60) (Some ''k=1\<newline>k=2'') 32 8 = Inr d'"
    using K4IniReader_succeeds [of 32 "2 ^ 60" 8 "Some ''k=1\<newline>k=2''"] by auto
  have c: "last_assigned (assignments [] (getlines ''k=1\<newline>k=2'')) [] ''k'' = Some ''2''"
    by code_simp
  have c': "find_value d' [] ''k'' = Some ''2''"
    using last_assignment_wins [OF built', of "[]" "''k''"] by (simp only: c)
  have 1: "\<exists>d. K4IniReader (2 ^ 60) (Some ''[A]\<newline>k=1\<newline>[A]\<newline>j=2'') 32 8 = Inr d
       \<and> find_value d ''A'' ''k'' = Some ''1'' \<and> find_value d ''A'' ''j'' = Some ''2''"
    by (rule exI [where x = d]) (rule conjI [OF built ab])
  have 2: "\<exists>d. K4IniReader (2 ^ 60) (Some ''k=1\<newline>k=2'') 32 8 = Inr d
         \<and> find_value d [] ''k'' = Some ''2''"
    by (rule exI [where x = d']) (rule conjI [OF built' c'])
  show ?thesis by (rule conjI [OF 1 2])
qed

subsection \<open>Capacity hints\<close>

lemma find_value_hints:
  assumes "K4IniReader max_buckets file n1 k1 = Inr d1"
    and "K4IniReader max_buckets file n2 k2 = Inr d2"
  shows "find_value d1 s k = find_value d2 s k"
proof (cases "file")
  case None
  with assms show ?thesis by (simp add: find_value_K4IniReader_None)
next
  case (Some content)
  with assms show ?thesis by (simp add: find_value_K4IniReader)
qed

text \<open>
  The hints can be seen when one of them is beyond what the allocator serves. From the
  file \<open>[A]\<close>, \<open>k=1\<close> with an allocator limit of \<open>2 ^ 60\<close> buckets, the hints
  \<open>(32, 8)\<close> build a document in which \<open>A.k\<close> reads as 1, and the hints
  \<open>(32, 2 ^ 62)\<close> build none: \<^verbatim>\<open>data[currentSection].reserve(nKeys)\<close> throws at the
  header line.
\<close>

theorem oversized_hint_builds_no_document:
  "\<not> isl (K4IniReader (2 ^ 60) (Some ''[A]\<newline>k=1'') 32 8)
   \<and> read_int (SignedInt 32) (projr (K4IniReader (2 ^ 60) (Some ''[A]\<newline>k=1'') 32 8))
        ''A'' ''k'' 0 False = 1
   \<and> K4IniReader (2 ^ 60) (Some ''[A]\<newline>k=1'') 32 (2 ^ 62) = Inl alloc_failure"
proof -
  obtain d where built: "K4IniReader (2 ^ 60) (Some ''[A]\<newline>k=1'') 32 8 = Inr d"
    using K4IniReader_succeeds [of 32 "2 ^ 60" 8 "Some ''[A]\<newline>k=1''"] by auto
  have k: "find_value d ''A'' ''k'' = Some ''1''"
    unfolding find_value_K4IniReader [OF built] by code_simp
  have conv: "from_chars_int (SignedInt 32) ''1'' = Inr 1" by code_simp
  have rd: "read_int (SignedInt 32) d ''A'' ''k'' 0 False = 1"
    by (simp add: read_int_def read_arithmetic_def k conv)
  have ls: "getlines ''[A]\<newline>k=1'' = [''[A]'', ''k=1'']" by code_simp
  have hd: "header_name ''[A]'' = Some ''A''" by code_simp
  have thrown: "K4IniReader (2 ^ 60) (Some ''[A]\<newline>k=1'') 32 (2 ^ 62) = Inl alloc_failure"
    by (simp add: K4IniReader_def reserve_def ls process_line_header [OF hd]
        subscript_try_reserve)
  show ?thesis
    unfolding built using rd thrown by simp
qed

text \<open>
  C9, as the code has it. For every source and any two choices of the capacity hints
  with which construction succeeds, the two documents answer every lookup alike, hence
  every read of every type (the arithmetic instance with any conversion, so for the
  integer and the floating-point types alike).
\<close>

theorem capacity_hints_unobservable:
  assumes "K4IniReader max_buckets file n1 k1 = Inr d1"
    and "K4IniReader max_buckets file n2 k2 = Inr d2"
  shows "find_value d1 s k = find_value d2 s k
       \<and> read_bool d1 s k b t = read_bool d2 s k b t
       \<and> read_char d1 s k c t = read_char d2 s k c t
       \<and> read_arithmetic from_chars d1 s k n t = read_arithmetic from_chars d2 s k n t
       \<and> read_int T d1 s k i t = read_int T d2 s k i t
       \<and> read_string d1 s k str t = read_string d2 s k str t
       \<and> read_other d1 s k x t = read_other d2 s k x t"
proof -
  have same: "find_value d1 s k = find_value d2 s k"
    using assms by (rule find_value_hints)
  then show ?thesis
    by (simp add: read_bool_def read_char_def read_arithmetic_def read_int_def
        read_string_def read_other_def)
qed

theorem capacity_hints_unobservable_witness:
  "\<exists>d1 d2. K4IniReader (2 ^ 60) (Some ''[A]\<newline>k=1'') 1 1 = Inr d1
     \<and> K4IniReader (2 ^ 60) (Some ''[A]\<newline>k=1'') 64 16 = Inr d2
     \<and> read_int (SignedInt 32) d1 ''A'' ''k'' 0 False = read_int (SignedInt 32) d2 ''A'' ''k'' 0 False
     \<and> read_int (SignedInt 32) d2 ''A'' ''k'' 0 False = 1"
proof -
  obtain d1 where b1: "K4IniReader (2 ^ 60) (Some ''[A]\<newline>k=1'') 1 1 = Inr d1"
    using K4IniReader_succeeds [of 1 "2 ^ 60" 1 "Some ''[A]\<newline>k=1''"] by auto
  obtain d2 where b2: "K4IniReader (2 ^ 60) (Some ''[A]\<newline>k=1'') 64 16 = Inr d2"
    using K4IniReader_succeeds [of 64 "2 ^ 60" 16 "Some ''[A]\<newline>k=1''"] by auto
  have same: "read_int (SignedInt 32) d1 ''A'' ''k'' 0 False
      = read_int (SignedInt 32) d2 ''A'' ''k'' 0 False"
    using capacity_hints_unobservable [OF b1 b2, where s = "''A''" and k = "''k''"
        and b = True and t = False and c = "CHR ''x''"
        and from_chars = "from_chars_int (SignedInt 32)" and n = 0 and T = "SignedInt 32"
        and i = 0 and str = "''d''" and x = "()"]
    by simp
  have k: "find_value d2 ''A'' ''k'' = Some ''1''"
    unfolding find_value_K4IniReader [OF b2] by code_simp
  have conv: "from_chars_int (SignedInt 32) ''1'' = Inr 1" by code_simp
  have one: "read_int (SignedInt 32) d2 ''A'' ''k'' 0 False = 1"
    by (simp add: read_int_def read_arithmetic_def k conv)
  show ?thesis
    by (rule exI [where x = d1], rule exI [where x = d2])
       (rule conjI [OF b1 conjI [OF b2 conjI [OF same one]]])
qed

end
